theory Spec2Isabelle
  imports Main
begin

section \<open>JavaScript values and arrays\<close>

text \<open>
  The cells of the board are the number \<open>0\<close> or a colour string, the cells of a
  shape mask are the numbers \<open>0\<close> and \<open>1\<close>, and a read past the end of an array
  gives \<open>undefined\<close>. Reading a property of \<open>undefined\<close> throws a TypeError, the
  only exception the component can raise.
\<close>

datatype jsval = Undefined | Num int | Str string

datatype error = TypeError

text \<open>Truthiness, as \<open>if (v)\<close> and \<open>a && b\<close> test it.\<close>

fun truthy :: "jsval \<Rightarrow> bool" where
  "truthy Undefined = False"
| "truthy (Num n) = (n \<noteq> 0)"
| "truthy (Str s) = (s \<noteq> [])"

text \<open>\<open>row[i]\<close> on an array of cells: \<open>undefined\<close> outside the array.\<close>

definition jsGet :: "jsval list \<Rightarrow> int \<Rightarrow> jsval" where
  "jsGet row i = (if 0 \<le> i \<and> nat i < length row then row ! nat i else Undefined)"

text \<open>\<open>board[i]\<close> on the array of rows: \<open>None\<close> stands for \<open>undefined\<close>.\<close>

definition jsRow :: "jsval list list \<Rightarrow> int \<Rightarrow> jsval list option" where
  "jsRow b i = (if 0 \<le> i \<and> nat i < length b then Some (b ! nat i) else None)"

text \<open>
  \<open>row[i] = v\<close>: inside the array the cell is replaced; past its end the array grows
  and the holes read as \<open>undefined\<close>; a negative index sets a property that no
  indexed read, copy or iteration of the component sees, so the cells stay as they are.
\<close>

definition jsSet :: "jsval list \<Rightarrow> int \<Rightarrow> jsval \<Rightarrow> jsval list" where
  "jsSet row i v =
     (if i < 0 then row
      else if nat i < length row then row[nat i := v]
      else row @ replicate (nat i - length row) Undefined @ [v])"

section \<open>Constants, pieces and the component state\<close>

definition BOARD_WIDTH :: int where
  "BOARD_WIDTH = 10"

definition BOARD_HEIGHT :: int where
  "BOARD_HEIGHT = 20"

record piece =
  shape :: "jsval list list"
  color :: string

record pos =
  pos_x :: int
  pos_y :: int

text \<open>The keys of \<open>TETROMINOS\<close>, in the order of the object literal: I, J, L, O, S, T, Z
  (\<open>O\<close> is an operator of HOL, so the keys carry a prefix).\<close>

datatype tetromino = TetI | TetJ | TetL | TetO | TetS | TetT | TetZ

fun TETROMINOS :: "tetromino \<Rightarrow> piece" where
  "TETROMINOS TetI = \<lparr>shape = [[Num 1, Num 1, Num 1, Num 1]], color = ''#00f0f0''\<rparr>"
| "TETROMINOS TetJ = \<lparr>shape = [[Num 1, Num 0, Num 0], [Num 1, Num 1, Num 1]], color = ''#0000f0''\<rparr>"
| "TETROMINOS TetL = \<lparr>shape = [[Num 0, Num 0, Num 1], [Num 1, Num 1, Num 1]], color = ''#f0a000''\<rparr>"
| "TETROMINOS TetO = \<lparr>shape = [[Num 1, Num 1], [Num 1, Num 1]], color = ''#f0f000''\<rparr>"
| "TETROMINOS TetS = \<lparr>shape = [[Num 0, Num 1, Num 1], [Num 1, Num 1, Num 0]], color = ''#00f000''\<rparr>"
| "TETROMINOS TetT = \<lparr>shape = [[Num 0, Num 1, Num 0], [Num 1, Num 1, Num 1]], color = ''#a000f0''\<rparr>"
| "TETROMINOS TetZ = \<lparr>shape = [[Num 1, Num 1, Num 0], [Num 0, Num 1, Num 1]], color = ''#f00000''\<rparr>"

definition createBoard :: "jsval list list" where
  "createBoard = replicate (nat BOARD_HEIGHT) (replicate (nat BOARD_WIDTH) (Num 0))"

record state =
  board :: "jsval list list"
  currentPiece :: "piece option"
  position :: pos
  gameOver :: bool
  score :: int

definition initialState :: state where
  "initialState =
     \<lparr>board = createBoard, currentPiece = None, position = \<lparr>pos_x = 0, pos_y = 0\<rparr>,
      gameOver = False, score = 0\<rparr>"

section \<open>isColliding\<close>

text \<open>
  The test made for one occupied mask cell, with the short-circuit order of the source:
  the bounds first, and \<open>board[newY][newX]\<close> read only when \<open>newY >= 0\<close>.
\<close>

definition cellCollides :: "jsval list list \<Rightarrow> pos \<Rightarrow> nat \<Rightarrow> nat \<Rightarrow> error + bool" where
  "cellCollides b p yi xi =
     (let newX = pos_x p + int xi; newY = pos_y p + int yi in
      if newX < 0 \<or> newX \<ge> BOARD_WIDTH \<or> newY \<ge> BOARD_HEIGHT then Inr True
      else if newY \<ge> 0 then
        (case jsRow b newY of
           None \<Rightarrow> Inl TypeError
         | Some row \<Rightarrow> Inr (truthy (jsGet row newX)))
      else Inr False)"

text \<open>The inner loop over \<open>x\<close>, from index \<open>xi\<close>, returning at the first hit.\<close>

fun collidesRow :: "jsval list list \<Rightarrow> pos \<Rightarrow> nat \<Rightarrow> nat \<Rightarrow> jsval list \<Rightarrow> error + bool" where
  "collidesRow b p yi xi [] = Inr False"
| "collidesRow b p yi xi (v # vs) =
     (if truthy v then
        (case cellCollides b p yi xi of
           Inl e \<Rightarrow> Inl e
         | Inr hit \<Rightarrow> if hit then Inr True else collidesRow b p yi (Suc xi) vs)
      else collidesRow b p yi (Suc xi) vs)"

text \<open>The outer loop over \<open>y\<close>, from index \<open>yi\<close>.\<close>

fun collidesRows :: "jsval list list \<Rightarrow> pos \<Rightarrow> nat \<Rightarrow> jsval list list \<Rightarrow> error + bool" where
  "collidesRows b p yi [] = Inr False"
| "collidesRows b p yi (r # rs) =
     (case collidesRow b p yi 0 r of
        Inl e \<Rightarrow> Inl e
      | Inr hit \<Rightarrow> if hit then Inr True else collidesRows b p (Suc yi) rs)"

definition isColliding :: "jsval list list \<Rightarrow> piece \<Rightarrow> pos \<Rightarrow> error + bool" where
  "isColliding b pc p = collidesRows b p 0 (shape pc)"

section \<open>mergePieceToBoard\<close>

text \<open>
  \<open>newBoard[newY][c] = v\<close> for \<open>newY >= 0\<close>: a row index past the last row reads
  \<open>undefined\<close>, and the assignment to its property throws.
\<close>

definition writeCell :: "jsval list list \<Rightarrow> int \<Rightarrow> int \<Rightarrow> jsval \<Rightarrow> error + jsval list list" where
  "writeCell nb r c v =
     (case jsRow nb r of
        None \<Rightarrow> Inl TypeError
      | Some row \<Rightarrow> Inr (nb[nat r := jsSet row c v]))"

text \<open>The inner \<open>forEach\<close> over the cells of mask row \<open>yi\<close>, from index \<open>xi\<close>.\<close>

fun mergeRow :: "jsval list list \<Rightarrow> string \<Rightarrow> pos \<Rightarrow> nat \<Rightarrow> nat \<Rightarrow> jsval list \<Rightarrow> error + jsval list list" where
  "mergeRow nb col p yi xi [] = Inr nb"
| "mergeRow nb col p yi xi (v # vs) =
     (if truthy v then
        (let newY = pos_y p + int yi in
         if newY \<ge> 0 then
           (case writeCell nb newY (pos_x p + int xi) (Str col) of
              Inl e \<Rightarrow> Inl e
            | Inr nb' \<Rightarrow> mergeRow nb' col p yi (Suc xi) vs)
         else mergeRow nb col p yi (Suc xi) vs)
      else mergeRow nb col p yi (Suc xi) vs)"

text \<open>The outer \<open>forEach\<close> over the mask rows, from index \<open>yi\<close>.\<close>

fun mergeRows :: "jsval list list \<Rightarrow> string \<Rightarrow> pos \<Rightarrow> nat \<Rightarrow> jsval list list \<Rightarrow> error + jsval list list" where
  "mergeRows nb col p yi [] = Inr nb"
| "mergeRows nb col p yi (r # rs) =
     (case mergeRow nb col p yi 0 r of
        Inl e \<Rightarrow> Inl e
      | Inr nb' \<Rightarrow> mergeRows nb' col p (Suc yi) rs)"

text \<open>\<open>row.every(cell => cell !== 0)\<close>.\<close>

definition rowComplete :: "jsval list \<Rightarrow> bool" where
  "rowComplete row = list_all (\<lambda>cell. cell \<noteq> Num 0) row"

text \<open>The \<open>reduce\<close> that pushes the index of every completed row.\<close>

definition completedRows :: "jsval list list \<Rightarrow> nat list" where
  "completedRows nb =
     fold (\<lambda>(i, row) acc. if rowComplete row then acc @ [i] else acc) (enumerate 0 nb) []"

text \<open>
  The line clear at the end of \<open>mergePieceToBoard\<close>, from the merged board and the
  score of the closure to the board and the score that are set.
\<close>

definition clearLines :: "jsval list list \<Rightarrow> int \<Rightarrow> jsval list list \<times> int" where
  "clearLines nb sc =
     (let completed = completedRows nb in
      if length completed \<noteq> 0 then
        (let newScore = sc + int (length completed) * 100;
             filteredBoard = map snd (filter (\<lambda>(i, row). i \<notin> set completed) (enumerate 0 nb));
             newRows = replicate (length completed) (replicate (nat BOARD_WIDTH) (Num 0))
         in (newRows @ filteredBoard, newScore))
      else (nb, sc))"

definition mergePieceToBoard :: "state \<Rightarrow> error + state" where
  "mergePieceToBoard s =
     (case currentPiece s of
        None \<Rightarrow> Inr s
      | Some pc \<Rightarrow>
          (case mergeRows (board s) (color pc) (position s) 0 (shape pc) of
             Inl e \<Rightarrow> Inl e
           | Inr newBoard \<Rightarrow>
               (let (b', sc') = clearLines newBoard (score s)
                in Inr (s\<lparr>board := b', currentPiece := None, score := sc'\<rparr>))))"

section \<open>moveDown, moveHorizontally, rotatePiece\<close>

definition moveDown :: "state \<Rightarrow> error + state" where
  "moveDown s =
     (case currentPiece s of
        None \<Rightarrow> Inr s
      | Some pc \<Rightarrow>
          (let newPos = (position s)\<lparr>pos_y := pos_y (position s) + 1\<rparr> in
           case isColliding (board s) pc newPos of
             Inl e \<Rightarrow> Inl e
           | Inr hit \<Rightarrow>
               if hit then
                 (if pos_y (position s) < 1 then Inr (s\<lparr>gameOver := True\<rparr>)
                  else mergePieceToBoard s)
               else Inr (s\<lparr>position := newPos\<rparr>)))"

definition moveHorizontally :: "int \<Rightarrow> state \<Rightarrow> error + state" where
  "moveHorizontally dir s =
     (case currentPiece s of
        None \<Rightarrow> Inr s
      | Some pc \<Rightarrow>
          (let newPos = (position s)\<lparr>pos_x := pos_x (position s) + dir\<rparr> in
           case isColliding (board s) pc newPos of
             Inl e \<Rightarrow> Inl e
           | Inr hit \<Rightarrow> if \<not> hit then Inr (s\<lparr>position := newPos\<rparr>) else Inr s))"

text \<open>
  \<open>shape[0].map((_, i) => shape.map(row => row[i]).reverse())\<close>: \<open>shape[0]\<close> of an
  empty mask is \<open>undefined\<close> and its \<open>map\<close> throws; a row shorter than the first one
  contributes \<open>undefined\<close>.
\<close>

definition rotatedShape :: "jsval list list \<Rightarrow> error + jsval list list" where
  "rotatedShape sh =
     (case sh of
        [] \<Rightarrow> Inl TypeError
      | r0 # _ \<Rightarrow> Inr (map (\<lambda>i. rev (map (\<lambda>row. jsGet row (int i)) sh)) [0..<length r0]))"

definition rotatePiece :: "state \<Rightarrow> error + state" where
  "rotatePiece s =
     (case currentPiece s of
        None \<Rightarrow> Inr s
      | Some pc \<Rightarrow>
          (case rotatedShape (shape pc) of
             Inl e \<Rightarrow> Inl e
           | Inr rs \<Rightarrow>
               (let rotatedPiece = pc\<lparr>shape := rs\<rparr> in
                case isColliding (board s) rotatedPiece (position s) of
                  Inl e \<Rightarrow> Inl e
                | Inr hit \<Rightarrow> if \<not> hit then Inr (s\<lparr>currentPiece := Some rotatedPiece\<rparr>) else Inr s)))"

section \<open>The effects: spawn, key presses, reset\<close>

text \<open>
  The state part of the first effect. The template that \<open>getRandomTetromino\<close> draws
  with \<open>Math.random\<close> is the parameter \<open>t\<close>. The interval that the effect installs
  calls \<open>moveDown\<close>; with \<open>gameOver\<close> set the effect returns before installing it.
\<close>

definition spawnEffect :: "tetromino \<Rightarrow> state \<Rightarrow> state" where
  "spawnEffect t s =
     (if gameOver s then s
      else if currentPiece s = None then
        s\<lparr>currentPiece := Some (TETROMINOS t),
          position := \<lparr>pos_x = BOARD_WIDTH div 2 - 1, pos_y = 0\<rparr>\<rparr>
      else s)"

datatype key = ArrowLeft | ArrowRight | ArrowDown | ArrowUp | OtherKey

definition handleKeyPress :: "key \<Rightarrow> state \<Rightarrow> error + state" where
  "handleKeyPress k s =
     (if gameOver s then Inr s
      else (case k of
              ArrowLeft \<Rightarrow> moveHorizontally (- 1) s
            | ArrowRight \<Rightarrow> moveHorizontally 1 s
            | ArrowDown \<Rightarrow> moveDown s
            | ArrowUp \<Rightarrow> rotatePiece s
            | OtherKey \<Rightarrow> Inr s))"

definition resetGame :: "state \<Rightarrow> state" where
  "resetGame s =
     s\<lparr>board := createBoard, currentPiece := None, position := \<lparr>pos_x = 0, pos_y = 0\<rparr>,
       gameOver := False, score := 0\<rparr>"

section \<open>The setter calls of the callbacks\<close>

text \<open>
  A callback does not change the state it reads: it is a closure over the state of the
  render that created it, and it calls the setters, which queue their values for the
  next render. Each callback is therefore given a second time, as the list of setter
  calls it makes from the state it closes over, in the order of the source. The
  functions above are these calls applied to that same state (lemmas \<open>*_calls_eq\<close>).
\<close>

datatype update =
    SetBoard "jsval list list"
  | SetCurrentPiece "piece option"
  | SetPosition pos
  | SetGameOver bool
  | SetScore int

fun applyUpdate :: "update \<Rightarrow> state \<Rightarrow> state" where
  "applyUpdate (SetBoard b) s = s\<lparr>board := b\<rparr>"
| "applyUpdate (SetCurrentPiece pc) s = s\<lparr>currentPiece := pc\<rparr>"
| "applyUpdate (SetPosition p) s = s\<lparr>position := p\<rparr>"
| "applyUpdate (SetGameOver g) s = s\<lparr>gameOver := g\<rparr>"
| "applyUpdate (SetScore n) s = s\<lparr>score := n\<rparr>"

text \<open>Every setter is called with a value, so for each variable the last call wins.\<close>

definition applyUpdates :: "update list \<Rightarrow> state \<Rightarrow> state" where
  "applyUpdates us s = fold applyUpdate us s"

definition mergePieceToBoard_calls :: "state \<Rightarrow> error + update list" where
  "mergePieceToBoard_calls s =
     (case currentPiece s of
        None \<Rightarrow> Inr []
      | Some pc \<Rightarrow>
          (case mergeRows (board s) (color pc) (position s) 0 (shape pc) of
             Inl e \<Rightarrow> Inl e
           | Inr newBoard \<Rightarrow>
               Inr ([SetBoard newBoard, SetCurrentPiece None] @
                    (if length (completedRows newBoard) \<noteq> 0 then
                       [SetScore (snd (clearLines newBoard (score s))),
                        SetBoard (fst (clearLines newBoard (score s)))]
                     else []))))"

definition moveDown_calls :: "state \<Rightarrow> error + update list" where
  "moveDown_calls s =
     (case currentPiece s of
        None \<Rightarrow> Inr []
      | Some pc \<Rightarrow>
          (let newPos = (position s)\<lparr>pos_y := pos_y (position s) + 1\<rparr> in
           case isColliding (board s) pc newPos of
             Inl e \<Rightarrow> Inl e
           | Inr hit \<Rightarrow>
               if hit then
                 (if pos_y (position s) < 1 then Inr [SetGameOver True]
                  else mergePieceToBoard_calls s)
               else Inr [SetPosition newPos]))"

definition moveHorizontally_calls :: "int \<Rightarrow> state \<Rightarrow> error + update list" where
  "moveHorizontally_calls dir s =
     (case currentPiece s of
        None \<Rightarrow> Inr []
      | Some pc \<Rightarrow>
          (let newPos = (position s)\<lparr>pos_x := pos_x (position s) + dir\<rparr> in
           case isColliding (board s) pc newPos of
             Inl e \<Rightarrow> Inl e
           | Inr hit \<Rightarrow> if \<not> hit then Inr [SetPosition newPos] else Inr []))"

definition rotatePiece_calls :: "state \<Rightarrow> error + update list" where
  "rotatePiece_calls s =
     (case currentPiece s of
        None \<Rightarrow> Inr []
      | Some pc \<Rightarrow>
          (case rotatedShape (shape pc) of
             Inl e \<Rightarrow> Inl e
           | Inr rs \<Rightarrow>
               (let rotatedPiece = pc\<lparr>shape := rs\<rparr> in
                case isColliding (board s) rotatedPiece (position s) of
                  Inl e \<Rightarrow> Inl e
                | Inr hit \<Rightarrow> if \<not> hit then Inr [SetCurrentPiece (Some rotatedPiece)] else Inr [])))"

definition handleKeyPress_calls :: "key \<Rightarrow> state \<Rightarrow> error + update list" where
  "handleKeyPress_calls k s =
     (if gameOver s then Inr []
      else (case k of
              ArrowLeft \<Rightarrow> moveHorizontally_calls (- 1) s
            | ArrowRight \<Rightarrow> moveHorizontally_calls 1 s
            | ArrowDown \<Rightarrow> moveDown_calls s
            | ArrowUp \<Rightarrow> rotatePiece_calls s
            | OtherKey \<Rightarrow> Inr []))"

definition spawnEffect_calls :: "tetromino \<Rightarrow> state \<Rightarrow> update list" where
  "spawnEffect_calls t s =
     (if gameOver s then []
      else if currentPiece s = None then
        [SetCurrentPiece (Some (TETROMINOS t)),
         SetPosition \<lparr>pos_x = BOARD_WIDTH div 2 - 1, pos_y = 0\<rparr>]
      else [])"

definition resetGame_calls :: "update list" where
  "resetGame_calls =
     [SetBoard createBoard, SetCurrentPiece None, SetPosition \<lparr>pos_x = 0, pos_y = 0\<rparr>,
      SetGameOver False, SetScore 0]"

section \<open>The component\<close>

text \<open>
  The component between two events: the state of the last render, the setter calls
  queued since, the state that the key listener closes over, the state that the
  callback of the interval closes over (\<open>None\<close> when none is installed), and whether
  the effects of the last render are still to run. Both effects depend on every state
  variable (through \<open>moveDown\<close>, \<open>moveHorizontally\<close>, \<open>rotatePiece\<close> and \<open>gameOver\<close>),
  so they run together after every render that changed one, and only then do the
  listener and the interval see the new state. The first effect returns before
  \<open>setInterval\<close> when \<open>gameOver\<close> is set. The New Game button exists only in a render
  with \<open>gameOver\<close> set.

  The actions: the interval fires; a key is pressed; the button is clicked; the
  component renders, applying the queued calls in order; the effects of the last render
  run, with the template that \<open>getRandomTetromino\<close> draws as the parameter. The
  callbacks run on the state they close over, which is older than the rendered state
  when an action comes before the render and the effects that follow the previous one.
  A run applies the actions in order and stops at the first exception.
\<close>

record comp =
  rendered :: state
  queued :: "update list"
  listener :: "state option"
  interval :: "state option"
  effectsDue :: bool

definition initialComp :: comp where
  "initialComp =
     \<lparr>rendered = initialState, queued = [], listener = None, interval = None,
      effectsDue = True\<rparr>"

datatype action = Fire | Press key | Click | Render | Effects tetromino

fun act :: "action \<Rightarrow> comp \<Rightarrow> error + comp" where
  "act Fire c =
     (case interval c of
        None \<Rightarrow> Inr c
      | Some s \<Rightarrow>
          (case moveDown_calls s of
             Inl e \<Rightarrow> Inl e
           | Inr us \<Rightarrow> Inr (c\<lparr>queued := queued c @ us\<rparr>)))"
| "act (Press k) c =
     (case listener c of
        None \<Rightarrow> Inr c
      | Some s \<Rightarrow>
          (case handleKeyPress_calls k s of
             Inl e \<Rightarrow> Inl e
           | Inr us \<Rightarrow> Inr (c\<lparr>queued := queued c @ us\<rparr>)))"
| "act Click c =
     (if gameOver (rendered c) then Inr (c\<lparr>queued := queued c @ resetGame_calls\<rparr>)
      else Inr c)"
| "act Render c =
     (if queued c = [] then Inr c
      else Inr (c\<lparr>rendered := applyUpdates (queued c) (rendered c), queued := [],
                 effectsDue := True\<rparr>))"
| "act (Effects t) c =
     (if effectsDue c then
        Inr (c\<lparr>listener := Some (rendered c),
               interval := (if gameOver (rendered c) then None else Some (rendered c)),
               queued := queued c @ spawnEffect_calls t (rendered c),
               effectsDue := False\<rparr>)
      else Inr c)"

fun run :: "action list \<Rightarrow> comp \<Rightarrow> error + comp" where
  "run [] c = Inr c"
| "run (a # as) c = (case act a c of Inl err \<Rightarrow> Inl err | Inr c' \<Rightarrow> run as c')"

text \<open>
  A callback is current when nothing is queued and the effects have run: then the
  listener and the interval close over the rendered state. A run is fresh when the
  interval fires, a key is pressed and the button is clicked only while the callbacks
  are current.
\<close>

definition current :: "comp \<Rightarrow> bool" where
  "current c = (queued c = [] \<and> \<not> effectsDue c)"

fun isCallback :: "action \<Rightarrow> bool" where
  "isCallback Fire = True"
| "isCallback (Press k) = True"
| "isCallback Click = True"
| "isCallback Render = False"
| "isCallback (Effects t) = False"

fun fresh :: "action list \<Rightarrow> comp \<Rightarrow> bool" where
  "fresh [] c = True"
| "fresh (a # as) c =
     ((isCallback a \<longrightarrow> current c) \<and>
      (case act a c of Inl err \<Rightarrow> True | Inr c' \<Rightarrow> fresh as c'))"

text \<open>The component at rest in state \<open>s\<close>: rendered, nothing queued, callbacks bound.\<close>

definition atRest :: "state \<Rightarrow> comp" where
  "atRest s =
     \<lparr>rendered = s, queued = [], listener = Some s,
      interval = (if gameOver s then None else Some s), effectsDue = False\<rparr>"

section \<open>Well-formed boards and the collision predicate\<close>

definition boardOk :: "jsval list list \<Rightarrow> bool" where
  "boardOk b = (length b = nat BOARD_HEIGHT \<and> list_all (\<lambda>row. length row = nat BOARD_WIDTH) b)"

text \<open>
  The condition of the collision query for the mask cell \<open>(xi, yi)\<close> of a piece at
  position \<open>p\<close>: out of the horizontal bounds, below the bottom, or on a filled cell of
  a row \<open>y \<ge> 0\<close>.
\<close>

definition cellHit :: "jsval list list \<Rightarrow> pos \<Rightarrow> nat \<Rightarrow> nat \<Rightarrow> bool" where
  "cellHit b p yi xi =
     (pos_x p + int xi < 0 \<or> pos_x p + int xi \<ge> BOARD_WIDTH \<or> pos_y p + int yi \<ge> BOARD_HEIGHT \<or>
      (pos_y p + int yi \<ge> 0 \<and> truthy (b ! nat (pos_y p + int yi) ! nat (pos_x p + int xi))))"

definition occupied :: "jsval list list \<Rightarrow> nat \<Rightarrow> nat \<Rightarrow> bool" where
  "occupied sh yi xi = (yi < length sh \<and> xi < length (sh ! yi) \<and> truthy (sh ! yi ! xi))"

text \<open>The piece at position \<open>p\<close> keeps every occupied cell inside the horizontal
  bounds and above the bottom of the board.\<close>

definition inBounds :: "piece \<Rightarrow> pos \<Rightarrow> bool" where
  "inBounds pc p =
     list_all (\<lambda>(yi, row).
        list_all (\<lambda>(xi, v). truthy v \<longrightarrow>
           0 \<le> pos_x p + int xi \<and> pos_x p + int xi < BOARD_WIDTH \<and>
           pos_y p + int yi < BOARD_HEIGHT) (enumerate 0 row)) (enumerate 0 (shape pc))"

text \<open>The grid cell in row \<open>r\<close>, column \<open>c\<close> lies under an occupied mask cell.\<close>

definition covers :: "piece \<Rightarrow> pos \<Rightarrow> nat \<Rightarrow> nat \<Rightarrow> bool" where
  "covers pc p r c =
     (pos_y p \<le> int r \<and> pos_x p \<le> int c \<and>
      occupied (shape pc) (nat (int r - pos_y p)) (nat (int c - pos_x p)))"

text \<open>
  The merge as the specification words it: the grid in which every cell under an
  occupied mask cell (of a row \<open>y \<ge> 0\<close>) holds the colour of the piece and every
  other cell is as before.
\<close>

definition mergedBoard :: "jsval list list \<Rightarrow> piece \<Rightarrow> pos \<Rightarrow> jsval list list" where
  "mergedBoard b pc p =
     map (\<lambda>r. map (\<lambda>c. if covers pc p r c then Str (color pc) else b ! r ! c)
                  [0..<nat BOARD_WIDTH]) [0..<nat BOARD_HEIGHT]"

definition painted :: "jsval list list \<Rightarrow> jsval list list \<Rightarrow> string \<Rightarrow> (nat \<Rightarrow> nat \<Rightarrow> bool) \<Rightarrow> bool" where
  "painted nb nb' col F =
     (boardOk nb' \<and>
      (\<forall>i < 20. \<forall>j < 10. nb' ! i ! j = (if F i j then Str col else nb ! i ! j)))"

definition emptyRow :: "jsval list" where
  "emptyRow = replicate (nat BOARD_WIDTH) (Num 0)"

text \<open>A mask with at least one row and one column whose rows have one length.\<close>

definition rectangular :: "jsval list list \<Rightarrow> bool" where
  "rectangular sh = (sh \<noteq> [] \<and> hd sh \<noteq> [] \<and> list_all (\<lambda>row. length row = length (hd sh)) sh)"

definition rect :: "nat \<Rightarrow> nat \<Rightarrow> jsval list list \<Rightarrow> bool" where
  "rect n m sh = (0 < n \<and> 0 < m \<and> length sh = n \<and> (\<forall>i < n. length (sh ! i) = m))"

text \<open>The rotation as the specification words it: transpose, then reverse each row.\<close>

definition clockwise :: "jsval list list \<Rightarrow> jsval list list" where
  "clockwise sh = map rev (transpose sh)"

text \<open>The rotation transform of \<open>rotatePiece\<close>, applied \<open>n\<close> times in succession.\<close>

fun rotateTimes :: "nat \<Rightarrow> jsval list list \<Rightarrow> error + jsval list list" where
  "rotateTimes 0 sh = Inr sh"
| "rotateTimes (Suc n) sh =
     (case rotatedShape sh of Inl e \<Rightarrow> Inl e | Inr sh' \<Rightarrow> rotateTimes n sh')"

section \<open>The invariant of the fresh runs\<close>

text \<open>
  A piece is freshly spawned while it is one of the seven templates at the spawn
  position. The invariant: the board is 10 x 20; an active piece has a rectangular
  mask inside the horizontal bounds and above the bottom, and it collides with nothing
  unless it is freshly spawned; when the game is over, a piece is present in a row
  \<open>y < 1\<close> and cannot move down.
\<close>

definition freshlySpawned :: "state \<Rightarrow> bool" where
  "freshlySpawned s =
     (position s = \<lparr>pos_x = 4, pos_y = 0\<rparr> \<and>
      currentPiece s \<in> set (map (\<lambda>t. Some (TETROMINOS t)) [TetI, TetJ, TetL, TetO, TetS, TetT, TetZ]))"

definition inv :: "state \<Rightarrow> bool" where
  "inv s =
     (boardOk (board s) \<and>
      (case currentPiece s of
         None \<Rightarrow> \<not> gameOver s
       | Some pc \<Rightarrow>
           rectangular (shape pc) \<and> inBounds pc (position s) \<and>
           (isColliding (board s) pc (position s) = Inr False \<or> freshlySpawned s) \<and>
           (gameOver s \<longrightarrow>
              pos_y (position s) < 1 \<and>
              isColliding (board s) pc ((position s)\<lparr>pos_y := pos_y (position s) + 1\<rparr>) = Inr True)))"

text \<open>
  The invariant of the component: the rendered state and the state that the queued
  calls will render satisfy \<open>inv\<close>; nothing is queued while effects are due; and
  current callbacks close over the rendered state, with no interval when the game is
  over.
\<close>

definition compInv :: "comp \<Rightarrow> bool" where
  "compInv c =
     (inv (rendered c) \<and> inv (applyUpdates (queued c) (rendered c)) \<and>
      (effectsDue c \<longrightarrow> queued c = []) \<and>
      (current c \<longrightarrow>
         listener c = Some (rendered c) \<and>
         interval c = (if gameOver (rendered c) then None else Some (rendered c))))"

section \<open>Centring of a spawned piece\<close>

text \<open>
  The free columns left and right of the mask of a piece at position \<open>p\<close>. The piece
  is centred when the two differ by at most one column (a mask of odd width on a board
  of even width cannot do better).
\<close>

definition leftGap :: "piece \<Rightarrow> pos \<Rightarrow> int" where
  "leftGap pc p = pos_x p"

definition rightGap :: "piece \<Rightarrow> pos \<Rightarrow> int" where
  "rightGap pc p = BOARD_WIDTH - (pos_x p + int (length (hd (shape pc))))"

definition centred :: "piece \<Rightarrow> pos \<Rightarrow> bool" where
  "centred pc p = (\<bar>leftGap pc p - rightGap pc p\<bar> \<le> 1)"

section \<open>Example states and runs\<close>

text \<open>
  \<open>handled t a\<close> is the action \<open>a\<close> followed by the render and the effects that settle
  it: render, effects (which spawn the template \<open>t\<close> when the piece has locked), the
  render of the spawned piece and its effects; where nothing is queued the render and
  the effects do nothing. \<open>mount t\<close> is the start of the component: the effects of the
  first render spawn \<open>t\<close>. \<open>fall n\<close> is \<open>n\<close> ticks, \<open>lock t\<close> the tick that locks the piece
  and the spawn of \<open>t\<close>. \<open>towerActs t\<close> stacks four upright I pieces in column 4, rows 4
  to 19, and spawns \<open>t\<close>.
\<close>

definition settle :: "tetromino \<Rightarrow> action list" where
  "settle t = [Render, Effects t, Render, Effects t]"

definition handled :: "tetromino \<Rightarrow> action \<Rightarrow> action list" where
  "handled t a = a # settle t"

definition mount :: "tetromino \<Rightarrow> action list" where
  "mount t = [Effects t, Render, Effects t]"

definition fall :: "nat \<Rightarrow> action list" where
  "fall n = concat (replicate n (handled TetI Fire))"

definition lock :: "tetromino \<Rightarrow> action list" where
  "lock t = handled t Fire"

definition presses :: "nat \<Rightarrow> key \<Rightarrow> action list" where
  "presses n k = concat (replicate n (handled TetI (Press k)))"

definition dropUprightI :: "nat \<Rightarrow> tetromino \<Rightarrow> action list" where
  "dropUprightI n t = presses 1 ArrowUp @ fall n @ lock t"

definition dropFlatI :: "nat \<Rightarrow> tetromino \<Rightarrow> action list" where
  "dropFlatI n t = fall n @ lock t"

definition towerActs :: "tetromino \<Rightarrow> action list" where
  "towerActs t =
     mount TetI @ dropUprightI 16 TetI @ dropUprightI 12 TetI @ dropUprightI 8 TetI @
     dropUprightI 4 t"

definition cyan :: jsval where
  "cyan = Str (color (TETROMINOS TetI))"

definition yellow :: jsval where
  "yellow = Str (color (TETROMINOS TetO))"

definition uprightI :: piece where
  "uprightI = \<lparr>shape = [[Num 1], [Num 1], [Num 1], [Num 1]], color = ''#00f0f0''\<rparr>"

definition towerBoard :: "jsval list list" where
  "towerBoard = replicate 4 emptyRow @ replicate 16 (emptyRow[4 := cyan])"

definition blockedActs :: "action list" where
  "blockedActs = towerActs TetI @ presses 1 ArrowUp"

definition blockedState :: state where
  "blockedState =
     \<lparr>board = towerBoard, currentPiece = Some uprightI,
      position = \<lparr>pos_x = 4, pos_y = 0\<rparr>, gameOver = False, score = 0\<rparr>"


definition gameOverState :: state where
  "gameOverState =
     \<lparr>board = towerBoard, currentPiece = Some uprightI,
      position = \<lparr>pos_x = 4, pos_y = 0\<rparr>, gameOver = True, score = 0\<rparr>"


definition overlapActs :: "action list" where
  "overlapActs = towerActs TetI @ dropFlatI 3 TetI @ dropFlatI 2 TetI @ dropFlatI 1 TetO"

definition overlapBoard :: "jsval list list" where
  "overlapBoard =
     replicate 1 emptyRow @
     replicate 3 (emptyRow[4 := cyan, 5 := cyan, 6 := cyan, 7 := cyan]) @
     replicate 16 (emptyRow[4 := cyan])"

definition overlapState :: state where
  "overlapState =
     \<lparr>board = overlapBoard, currentPiece = Some (TETROMINOS TetO),
      position = \<lparr>pos_x = 4, pos_y = 0\<rparr>, gameOver = False, score = 0\<rparr>"

definition lockActs :: "action list" where
  "lockActs =
     mount TetI @ presses 4 ArrowLeft @ fall 19 @ lock TetI @
     presses 2 ArrowRight @ fall 19 @ lock TetO @ fall 18"

definition lockExample :: state where
  "lockExample =
     \<lparr>board = replicate 19 emptyRow @ [(replicate 10 cyan)[4 := Num 0, 5 := Num 0]],
      currentPiece = Some (TETROMINOS TetO),
      position = \<lparr>pos_x = 4, pos_y = 18\<rparr>, gameOver = False, score = 0\<rparr>"

definition clearExample :: "jsval list list" where
  "clearExample =
     replicate 17 emptyRow @ [replicate 10 cyan, emptyRow[0 := yellow], replicate 10 yellow]"

definition wallActs :: "action list" where
  "wallActs = mount TetI @ presses 1 ArrowUp @ presses 4 ArrowRight @ fall 5"

definition wallState :: state where
  "wallState =
     \<lparr>board = createBoard, currentPiece = Some uprightI,
      position = \<lparr>pos_x = 8, pos_y = 5\<rparr>, gameOver = False, score = 0\<rparr>"

definition turnActs :: "action list" where
  "turnActs = mount TetT @ fall 1 @ presses 1 ArrowLeft @ presses 1 ArrowUp"

definition turnState :: state where
  "turnState =
     \<lparr>board = createBoard,
      currentPiece = Some \<lparr>shape = [[Num 1, Num 0], [Num 1, Num 1], [Num 1, Num 0]], color = ''#a000f0''\<rparr>,
      position = \<lparr>pos_x = 3, pos_y = 1\<rparr>, gameOver = False, score = 0\<rparr>"

text \<open>
  A run that is not fresh: an upright I piece falls to rows 16 to 19; the interval
  fires and queues the lock; before the render the up key is pressed, and the listener,
  which still sees the piece on the empty board, queues the turned piece.
\<close>

definition staleActs :: "action list" where
  "staleActs = mount TetI @ presses 1 ArrowUp @ fall 16 @ [Fire, Press ArrowUp, Render]"

definition staleState :: state where
  "staleState =
     \<lparr>board = replicate 16 emptyRow @ replicate 4 (emptyRow[4 := cyan]),
      currentPiece = Some (TETROMINOS TetI),
      position = \<lparr>pos_x = 4, pos_y = 16\<rparr>, gameOver = False, score = 0\<rparr>"

section \<open>The collision loops\<close>


lemma cellCollides_cellHit:
  assumes "boardOk b"
  shows "cellCollides b p yi xi = Inr (cellHit b p yi xi)"
proof -
  have len: "length b = 20" and rows: "\<And>r. r < 20 \<Longrightarrow> length (b ! r) = 10"
    using assms by (auto simp: boardOk_def BOARD_HEIGHT_def BOARD_WIDTH_def list_all_length)
  show ?thesis
    using len rows [of "nat (pos_y p + int yi)"]
    by (auto simp: cellCollides_def cellHit_def Let_def jsRow_def jsGet_def
        BOARD_HEIGHT_def BOARD_WIDTH_def)
qed

lemma collidesRow_iff:
  assumes "boardOk b"
  shows "collidesRow b p yi xi vs =
         Inr (\<exists>k < length vs. truthy (vs ! k) \<and> cellHit b p yi (xi + k))"
proof (induction vs arbitrary: xi)
  case Nil
  show ?case by simp
next
  case (Cons v vs)
  have split: "(\<exists>k < length (v # vs). truthy ((v # vs) ! k) \<and> cellHit b p yi (xi + k)) =
               ((truthy v \<and> cellHit b p yi xi) \<or>
                (\<exists>k < length vs. truthy (vs ! k) \<and> cellHit b p yi (Suc xi + k)))"
    by (simp add: Ex_less_Suc2)
  show ?case
    unfolding split
    by (auto simp: cellCollides_cellHit [OF assms] Cons.IH)
qed

lemma collidesRows_iff:
  assumes "boardOk b"
  shows "collidesRows b p yi rs =
         Inr (\<exists>j < length rs. \<exists>k < length (rs ! j). truthy (rs ! j ! k) \<and> cellHit b p (yi + j) k)"
proof (induction rs arbitrary: yi)
  case Nil
  show ?case by simp
next
  case (Cons r rs)
  have split: "(\<exists>j < length (r # rs). \<exists>k < length ((r # rs) ! j).
                   truthy ((r # rs) ! j ! k) \<and> cellHit b p (yi + j) k) =
               ((\<exists>k < length r. truthy (r ! k) \<and> cellHit b p yi k) \<or>
                (\<exists>j < length rs. \<exists>k < length (rs ! j). truthy (rs ! j ! k) \<and> cellHit b p (Suc yi + j) k))"
    by (simp add: Ex_less_Suc2)
  show ?case
    unfolding split
    by (auto simp: collidesRow_iff [OF assms] Cons.IH)
qed

lemma isColliding_iff:
  assumes "boardOk b"
  shows "isColliding b pc p = Inr (\<exists>yi xi. occupied (shape pc) yi xi \<and> cellHit b p yi xi)"
proof -
  have "(\<exists>j < length (shape pc). \<exists>k < length (shape pc ! j).
            truthy (shape pc ! j ! k) \<and> cellHit b p (0 + j) k) =
        (\<exists>yi xi. occupied (shape pc) yi xi \<and> cellHit b p yi xi)"
    by (auto simp: occupied_def)
  then show ?thesis
    by (simp add: isColliding_def collidesRows_iff [OF assms])
qed

section \<open>The line clear\<close>

lemma fold_completed:
  "fold (\<lambda>(i, row) acc. if rowComplete row then acc @ [i] else acc) (enumerate n xs) acc =
   acc @ map fst (filter (\<lambda>(i, row). rowComplete row) (enumerate n xs))"
  by (induction xs arbitrary: n acc) auto

lemma completedRows_eq:
  "completedRows nb = map fst (filter (\<lambda>(i, row). rowComplete row) (enumerate 0 nb))"
  by (simp add: completedRows_def fold_completed)

lemma set_completedRows:
  "set (completedRows nb) = {i. i < length nb \<and> rowComplete (nb ! i)}"
  by (auto simp: completedRows_eq in_set_enumerate_eq image_iff)

lemma filter_snd_enumerate:
  "map snd (filter (\<lambda>(i, row). Q row) (enumerate n xs)) = filter Q xs"
  by (induction xs arbitrary: n) auto

lemma length_completedRows:
  "length (completedRows nb) = length (filter rowComplete nb)"
proof -
  have "length (completedRows nb) =
        length (map snd (filter (\<lambda>(i, row). rowComplete row) (enumerate 0 nb)))"
    by (simp add: completedRows_eq)
  then show ?thesis by (simp only: filter_snd_enumerate)
qed

lemma filteredBoard_eq:
  "map snd (filter (\<lambda>(i, row). i \<notin> set (completedRows nb)) (enumerate 0 nb)) =
   filter (\<lambda>row. \<not> rowComplete row) nb"
proof -
  have "filter (\<lambda>(i, row). i \<notin> set (completedRows nb)) (enumerate 0 nb) =
        filter (\<lambda>(i, row). \<not> rowComplete row) (enumerate 0 nb)"
    by (rule filter_cong) (auto simp: set_completedRows in_set_enumerate_eq)
  then show ?thesis by (simp only: filter_snd_enumerate)
qed

lemma filter_none_complete:
  "length (filter rowComplete nb) = 0 \<Longrightarrow> filter (\<lambda>row. \<not> rowComplete row) nb = nb"
  by (induction nb) (auto split: if_splits)

lemma clearLines_eq:
  "clearLines nb sc =
     (replicate (length (filter rowComplete nb)) emptyRow @ filter (\<lambda>row. \<not> rowComplete row) nb,
      sc + 100 * int (length (filter rowComplete nb)))"
proof (cases "length (completedRows nb) = 0")
  case True
  then have k0: "length (filter rowComplete nb) = 0"
    by (simp only: length_completedRows)
  with True show ?thesis
    by (simp add: clearLines_def Let_def filter_none_complete [OF k0])
next
  case False
  then have "completedRows nb \<noteq> []" by simp
  then show ?thesis
    by (simp add: clearLines_def Let_def filteredBoard_eq emptyRow_def)
      (simp add: length_completedRows)
qed

lemma length_clearLines: "length (fst (clearLines nb sc)) = length nb"
  using sum_length_filter_compl [of rowComplete nb] by (simp add: clearLines_eq)

lemma boardOk_clearLines:
  assumes "boardOk nb"
  shows "boardOk (fst (clearLines nb sc))"
  using assms length_clearLines [of nb sc]
  by (auto simp: boardOk_def clearLines_eq list_all_iff emptyRow_def)

section \<open>The merge loops\<close>

lemma boardOk_nth: "boardOk b \<Longrightarrow> i < 20 \<Longrightarrow> length (b ! i) = 10"
  by (simp add: boardOk_def BOARD_HEIGHT_def BOARD_WIDTH_def list_all_length)

lemma boardOk_length: "boardOk b \<Longrightarrow> length b = 20"
  by (simp add: boardOk_def BOARD_HEIGHT_def)

lemma boardOk_update:
  assumes "boardOk nb" "r < 20"
  shows "boardOk (nb[r := (nb ! r)[c := v]])"
  using assms
  by (auto simp: boardOk_def BOARD_HEIGHT_def BOARD_WIDTH_def list_all_length nth_list_update)

lemma writeCell_ok:
  assumes "boardOk nb" "0 \<le> r" "r < 20" "0 \<le> c" "c < 10"
  shows "writeCell nb r c v = Inr (nb[nat r := (nb ! nat r)[nat c := v]])"
proof -
  have r: "nat r < 20" and c: "nat c < 10"
    using assms by auto
  show ?thesis
    using assms(2,4) r c boardOk_length [OF assms(1)] boardOk_nth [OF assms(1) r]
    by (simp add: writeCell_def jsRow_def jsSet_def)
qed

lemma painted_refl: "boardOk nb \<Longrightarrow> painted nb nb col (\<lambda>i j. False)"
  by (simp add: painted_def)

lemma painted_write:
  assumes "boardOk nb" "0 \<le> r" "r < 20" "0 \<le> c" "c < 10"
  shows "painted nb (nb[nat r := (nb ! nat r)[nat c := Str col]]) col
           (\<lambda>i j. int i = r \<and> int j = c)"
  unfolding painted_def
proof (intro conjI allI impI)
  show "boardOk (nb[nat r := (nb ! nat r)[nat c := Str col]])"
    using assms by (intro boardOk_update) auto
next
  fix i j :: nat
  assume "i < 20" "j < 10"
  then show "nb[nat r := (nb ! nat r)[nat c := Str col]] ! i ! j =
             (if int i = r \<and> int j = c then Str col else nb ! i ! j)"
    using assms boardOk_length [OF assms(1)] boardOk_nth [OF assms(1), of i]
    by (auto simp: nth_list_update)
qed

lemma painted_trans:
  assumes "painted nb nb1 col F" "painted nb1 nb2 col G"
  shows "painted nb nb2 col (\<lambda>i j. F i j \<or> G i j)"
  using assms by (auto simp: painted_def)

lemma painted_cong:
  assumes "painted nb nb' col F" "\<And>i j. i < 20 \<Longrightarrow> j < 10 \<Longrightarrow> F i j = G i j"
  shows "painted nb nb' col G"
  using assms by (auto simp: painted_def)

lemma mergeRow_painted:
  assumes "boardOk nb"
    and "\<And>k. k < length vs \<Longrightarrow> truthy (vs ! k) \<Longrightarrow>
           0 \<le> pos_x p + int (xi + k) \<and> pos_x p + int (xi + k) < 10"
    and "pos_y p + int yi < 20 \<or> \<not> (\<exists>k < length vs. truthy (vs ! k))"
  shows "\<exists>nb'. mergeRow nb col p yi xi vs = Inr nb' \<and>
           painted nb nb' col
             (\<lambda>i j. int i = pos_y p + int yi \<and>
                    (\<exists>k < length vs. truthy (vs ! k) \<and> int j = pos_x p + int (xi + k)))"
  using assms
proof (induction vs arbitrary: nb xi)
  case Nil
  then show ?case by (simp add: painted_refl)
next
  case (Cons v vs)
  have bounds': "\<And>k. k < length vs \<Longrightarrow> truthy (vs ! k) \<Longrightarrow>
           0 \<le> pos_x p + int (Suc xi + k) \<and> pos_x p + int (Suc xi + k) < 10"
    using Cons.prems(2) [of "Suc k" for k] by simp
  have low': "pos_y p + int yi < 20 \<or> \<not> (\<exists>k < length vs. truthy (vs ! k))"
    using Cons.prems(3) by auto
  let ?F = "\<lambda>i j. int i = pos_y p + int yi \<and>
                    (\<exists>k < length vs. truthy (vs ! k) \<and> int j = pos_x p + int (Suc xi + k))"
  show ?case
  proof (cases "truthy v \<and> pos_y p + int yi \<ge> 0")
    case True
    have x: "0 \<le> pos_x p + int xi" "pos_x p + int xi < 10"
      using Cons.prems(2) [of 0] True by auto
    have y: "pos_y p + int yi < 20"
      using Cons.prems(3) True by auto
    let ?nb1 = "nb[nat (pos_y p + int yi) := (nb ! nat (pos_y p + int yi))[nat (pos_x p + int xi) := Str col]]"
    have w: "writeCell nb (pos_y p + int yi) (pos_x p + int xi) (Str col) = Inr ?nb1"
      using Cons.prems(1) True x y by (intro writeCell_ok) auto
    have p1: "painted nb ?nb1 col (\<lambda>i j. int i = pos_y p + int yi \<and> int j = pos_x p + int xi)"
      using Cons.prems(1) True x y by (intro painted_write) auto
    then have ok1: "boardOk ?nb1" by (simp add: painted_def)
    from Cons.IH [OF ok1 bounds' low'] obtain nb'
      where r: "mergeRow ?nb1 col p yi (Suc xi) vs = Inr nb'" and p2: "painted ?nb1 nb' col ?F"
      by blast
    have "painted nb nb' col
             (\<lambda>i j. int i = pos_y p + int yi \<and>
                    (\<exists>k < length (v # vs). truthy ((v # vs) ! k) \<and> int j = pos_x p + int (xi + k)))"
      using True by (intro painted_cong [OF painted_trans [OF p1 p2]]) (auto simp: Ex_less_Suc2)
    moreover have "mergeRow nb col p yi xi (v # vs) = Inr nb'"
      using True w r by (simp add: Let_def)
    ultimately show ?thesis by blast
  next
    case False
    from Cons.IH [OF Cons.prems(1) bounds' low'] obtain nb'
      where r: "mergeRow nb col p yi (Suc xi) vs = Inr nb'" and p2: "painted nb nb' col ?F"
      by blast
    have "painted nb nb' col
             (\<lambda>i j. int i = pos_y p + int yi \<and>
                    (\<exists>k < length (v # vs). truthy ((v # vs) ! k) \<and> int j = pos_x p + int (xi + k)))"
      using False by (intro painted_cong [OF p2]) (auto simp: Ex_less_Suc2)
    moreover have "mergeRow nb col p yi xi (v # vs) = Inr nb'"
      using False r by (auto simp: Let_def)
    ultimately show ?thesis by blast
  qed
qed


lemma inBounds_iff:
  "inBounds pc p =
     (\<forall>yi xi. occupied (shape pc) yi xi \<longrightarrow>
        0 \<le> pos_x p + int xi \<and> pos_x p + int xi < 10 \<and> pos_y p + int yi < 20)"
  by (auto simp: inBounds_def occupied_def list_all_length nth_enumerate_eq
      BOARD_WIDTH_def BOARD_HEIGHT_def)

lemma mergeRows_painted:
  assumes "boardOk nb"
    and "\<And>j k. j < length rs \<Longrightarrow> k < length (rs ! j) \<Longrightarrow> truthy (rs ! j ! k) \<Longrightarrow>
           0 \<le> pos_x p + int k \<and> pos_x p + int k < 10 \<and> pos_y p + int (yi + j) < 20"
  shows "\<exists>nb'. mergeRows nb col p yi rs = Inr nb' \<and>
           painted nb nb' col
             (\<lambda>i c. \<exists>j < length rs. int i = pos_y p + int (yi + j) \<and>
                    (\<exists>k < length (rs ! j). truthy (rs ! j ! k) \<and> int c = pos_x p + int k))"
  using assms
proof (induction rs arbitrary: nb yi)
  case Nil
  then show ?case by (simp add: painted_refl)
next
  case (Cons r rs)
  have b0: "\<And>k. k < length r \<Longrightarrow> truthy (r ! k) \<Longrightarrow>
           0 \<le> pos_x p + int (0 + k) \<and> pos_x p + int (0 + k) < 10"
    using Cons.prems(2) [of 0] by simp
  have y0: "pos_y p + int yi < 20 \<or> \<not> (\<exists>k < length r. truthy (r ! k))"
    using Cons.prems(2) [of 0] by auto
  from mergeRow_painted [OF Cons.prems(1) b0 y0, where col = col] obtain nb1
    where r1: "mergeRow nb col p yi 0 r = Inr nb1"
      and p1: "painted nb nb1 col
             (\<lambda>i j. int i = pos_y p + int yi \<and>
                    (\<exists>k < length r. truthy (r ! k) \<and> int j = pos_x p + int (0 + k)))"
    by blast
  have ok1: "boardOk nb1" using p1 by (simp add: painted_def)
  have b': "\<And>j k. j < length rs \<Longrightarrow> k < length (rs ! j) \<Longrightarrow> truthy (rs ! j ! k) \<Longrightarrow>
           0 \<le> pos_x p + int k \<and> pos_x p + int k < 10 \<and> pos_y p + int (Suc yi + j) < 20"
    using Cons.prems(2) [of "Suc j" for j] by simp
  from Cons.IH [OF ok1 b'] obtain nb'
    where r2: "mergeRows nb1 col p (Suc yi) rs = Inr nb'"
      and p2: "painted nb1 nb' col
             (\<lambda>i c. \<exists>j < length rs. int i = pos_y p + int (Suc yi + j) \<and>
                    (\<exists>k < length (rs ! j). truthy (rs ! j ! k) \<and> int c = pos_x p + int k))"
    by blast
  have "painted nb nb' col
             (\<lambda>i c. \<exists>j < length (r # rs). int i = pos_y p + int (yi + j) \<and>
                    (\<exists>k < length ((r # rs) ! j). truthy ((r # rs) ! j ! k) \<and> int c = pos_x p + int k))"
    by (intro painted_cong [OF painted_trans [OF p1 p2]]) (simp add: Ex_less_Suc2 ac_simps)
  moreover have "mergeRows nb col p yi (r # rs) = Inr nb'"
    using r1 r2 by simp
  ultimately show ?case by blast
qed

lemma painted_mergedBoard:
  assumes "boardOk b" "painted b nb' (color pc) (covers pc p)"
  shows "nb' = mergedBoard b pc p"
proof (rule nth_equalityI)
  show len: "length nb' = length (mergedBoard b pc p)"
    using assms(2) by (simp add: painted_def mergedBoard_def boardOk_length BOARD_HEIGHT_def)
  fix i assume "i < length nb'"
  then have i: "i < 20" using assms(2) by (simp add: painted_def boardOk_length)
  show "nb' ! i = mergedBoard b pc p ! i"
  proof (rule nth_equalityI)
    show "length (nb' ! i) = length (mergedBoard b pc p ! i)"
      using assms(2) i by (simp add: painted_def mergedBoard_def boardOk_nth BOARD_HEIGHT_def BOARD_WIDTH_def)
    fix j assume "j < length (nb' ! i)"
    then have j: "j < 10" using assms(2) i by (simp add: painted_def boardOk_nth)
    show "nb' ! i ! j = mergedBoard b pc p ! i ! j"
      using assms(2) i j by (simp add: painted_def mergedBoard_def BOARD_HEIGHT_def BOARD_WIDTH_def)
  qed
qed

lemma mergeRows_mergedBoard:
  assumes "boardOk b" "inBounds pc p"
  shows "mergeRows b (color pc) p 0 (shape pc) = Inr (mergedBoard b pc p)"
proof -
  have bnd: "\<And>j k. j < length (shape pc) \<Longrightarrow> k < length (shape pc ! j) \<Longrightarrow>
           truthy (shape pc ! j ! k) \<Longrightarrow>
           0 \<le> pos_x p + int k \<and> pos_x p + int k < 10 \<and> pos_y p + int (0 + j) < 20"
    using assms(2) by (simp add: inBounds_iff occupied_def)
  from mergeRows_painted [OF assms(1) bnd, where col = "color pc"] obtain nb'
    where r: "mergeRows b (color pc) p 0 (shape pc) = Inr nb'"
      and pt: "painted b nb' (color pc)
             (\<lambda>i c. \<exists>j < length (shape pc). int i = pos_y p + int (0 + j) \<and>
                    (\<exists>k < length (shape pc ! j). truthy (shape pc ! j ! k) \<and> int c = pos_x p + int k))"
    by blast
  have "painted b nb' (color pc) (covers pc p)"
  proof (rule painted_cong [OF pt])
    fix i j :: nat
    show "(\<exists>ja<length (shape pc). int i = pos_y p + int (0 + ja) \<and>
              (\<exists>k<length (shape pc ! ja). truthy (shape pc ! ja ! k) \<and> int j = pos_x p + int k)) =
          covers pc p i j"
    proof
      assume "\<exists>ja<length (shape pc). int i = pos_y p + int (0 + ja) \<and>
              (\<exists>k<length (shape pc ! ja). truthy (shape pc ! ja ! k) \<and> int j = pos_x p + int k)"
      then obtain ja k where "ja < length (shape pc)" "int i = pos_y p + int ja"
        "k < length (shape pc ! ja)" "truthy (shape pc ! ja ! k)" "int j = pos_x p + int k"
        by auto
      then show "covers pc p i j"
        by (simp add: covers_def occupied_def)
    next
      assume c: "covers pc p i j"
      let ?ja = "nat (int i - pos_y p)" and ?k = "nat (int j - pos_x p)"
      from c have "?ja < length (shape pc)" "int i = pos_y p + int (0 + ?ja)"
        "?k < length (shape pc ! ?ja)" "truthy (shape pc ! ?ja ! ?k)" "int j = pos_x p + int ?k"
        by (auto simp: covers_def occupied_def)
      then show "\<exists>ja<length (shape pc). int i = pos_y p + int (0 + ja) \<and>
              (\<exists>k<length (shape pc ! ja). truthy (shape pc ! ja ! k) \<and> int j = pos_x p + int k)"
        by blast
    qed
  qed
  from painted_mergedBoard [OF assms(1) this] r show ?thesis by simp
qed

section \<open>The rotation\<close>

lemma rectangular_rect: "rectangular sh = rect (length sh) (length (hd sh)) sh"
  by (cases sh) (auto simp: rectangular_def rect_def list_all_length)

lemma rect_rectangular: "rect n m sh \<Longrightarrow> rectangular sh"
  by (cases sh) (auto simp: rectangular_def rect_def list_all_length)

lemma rect_hd: "rect n m sh \<Longrightarrow> length (hd sh) = m"
  by (cases sh) (auto simp: rect_def)

lemma clockwise_eq:
  assumes "rect n m sh"
  shows "clockwise sh = map (\<lambda>i. rev (map (\<lambda>row. row ! i) sh)) [0..<m]"
proof -
  have "transpose sh = map (\<lambda>i. map (\<lambda>j. sh ! j ! i) [0..<length sh]) [0..<m]"
    using assms by (intro transpose_rectangle) (auto simp: rect_def)
  moreover have "\<And>i. map (\<lambda>j. sh ! j ! i) [0..<length sh] = map (\<lambda>row. row ! i) sh"
    by (rule nth_equalityI) auto
  ultimately show ?thesis by (simp add: clockwise_def)
qed

lemma rotatedShape_clockwise:
  assumes "rect n m sh"
  shows "rotatedShape sh = Inr (clockwise sh)"
proof -
  obtain r0 rs where sh: "sh = r0 # rs" using assms by (cases sh) (auto simp: rect_def)
  have len: "length r0 = m" using assms rect_hd [OF assms] by (simp add: sh)
  have rows: "\<And>row. row \<in> set sh \<Longrightarrow> length row = m"
    using assms by (auto simp: rect_def in_set_conv_nth)
  have "map (\<lambda>i. rev (map (\<lambda>row. jsGet row (int i)) sh)) [0..<length r0] =
        map (\<lambda>i. rev (map (\<lambda>row. row ! i) sh)) [0..<m]"
    using rows by (auto simp: len jsGet_def)
  then show ?thesis
    by (simp add: rotatedShape_def sh [symmetric] clockwise_eq [OF assms]) (simp add: sh)
qed

lemma rect_clockwise:
  assumes "rect n m sh"
  shows "rect m n (clockwise sh)"
  using assms by (auto simp: clockwise_eq [OF assms] rect_def)

lemma clockwise_nth:
  assumes "rect n m sh" "i < m" "j < n"
  shows "clockwise sh ! i ! j = sh ! (n - 1 - j) ! i"
  using assms by (simp add: clockwise_eq [OF assms(1)] rect_def rev_nth)

lemma clockwise4:
  assumes "rect n m sh"
  shows "clockwise (clockwise (clockwise (clockwise sh))) = sh"
proof -
  let ?a = "clockwise sh" and ?b = "clockwise (clockwise sh)"
    and ?c = "clockwise (clockwise (clockwise sh))"
  have ra: "rect m n ?a" by (rule rect_clockwise [OF assms])
  have rb: "rect n m ?b" by (rule rect_clockwise [OF ra])
  have rc: "rect m n ?c" by (rule rect_clockwise [OF rb])
  have rd: "rect n m (clockwise ?c)" by (rule rect_clockwise [OF rc])
  show ?thesis
  proof (rule nth_equalityI)
    show "length (clockwise ?c) = length sh" using rd assms by (simp add: rect_def)
    fix i assume "i < length (clockwise ?c)"
    then have i: "i < n" using rd by (simp add: rect_def)
    show "clockwise ?c ! i = sh ! i"
    proof (rule nth_equalityI)
      show "length (clockwise ?c ! i) = length (sh ! i)" using rd assms i by (simp add: rect_def)
      fix j assume "j < length (clockwise ?c ! i)"
      then have j: "j < m" using rd i by (simp add: rect_def)
      have "clockwise ?c ! i ! j = ?c ! (m - 1 - j) ! i"
        using clockwise_nth [OF rc i j] .
      also have "\<dots> = ?b ! (n - 1 - i) ! (m - 1 - j)"
        using clockwise_nth [OF rb, of "m - 1 - j" i] i j by simp
      also have "\<dots> = ?a ! (m - 1 - (m - 1 - j)) ! (n - 1 - i)"
        using clockwise_nth [OF ra, of "n - 1 - i" "m - 1 - j"] i j by simp
      also have "\<dots> = sh ! (n - 1 - (n - 1 - i)) ! (m - 1 - (m - 1 - j))"
        using clockwise_nth [OF assms, of "m - 1 - (m - 1 - j)" "n - 1 - i"] i j by simp
      also have "\<dots> = sh ! i ! j" using i j by simp
      finally show "clockwise ?c ! i ! j = sh ! i ! j" .
    qed
  qed
qed

section \<open>Preservation of the invariant\<close>

lemma boardOk_createBoard: "boardOk createBoard"
  by (simp add: boardOk_def createBoard_def BOARD_HEIGHT_def BOARD_WIDTH_def list_all_length)

lemma boardOk_mergedBoard: "boardOk (mergedBoard b pc p)"
  by (simp add: boardOk_def mergedBoard_def list_all_length)

lemma not_colliding_inBounds:
  assumes "boardOk b" "isColliding b pc p = Inr False"
  shows "inBounds pc p"
proof -
  have "\<not> (\<exists>yi xi. occupied (shape pc) yi xi \<and> cellHit b p yi xi)"
    using assms(2) by (simp add: isColliding_iff [OF assms(1)])
  then have free: "\<And>yi xi. occupied (shape pc) yi xi \<Longrightarrow> \<not> cellHit b p yi xi"
    by blast
  show ?thesis
    unfolding inBounds_iff
  proof (intro allI impI)
    fix yi xi
    assume "occupied (shape pc) yi xi"
    from free [OF this]
    show "0 \<le> pos_x p + int xi \<and> pos_x p + int xi < 10 \<and> pos_y p + int yi < 20"
      by (simp add: cellHit_def BOARD_WIDTH_def BOARD_HEIGHT_def not_le not_less)
  qed
qed

lemma isColliding_total:
  assumes "boardOk b"
  shows "\<exists>h. isColliding b pc p = Inr h"
  by (simp add: isColliding_iff [OF assms])

lemma inv_initialState: "inv initialState"
  by (simp add: inv_def initialState_def boardOk_createBoard)

lemma inv_resetGame: "inv (resetGame s)"
  by (simp add: inv_def resetGame_def boardOk_createBoard)

lemma template_ok:
  "rectangular (shape (TETROMINOS t)) \<and> inBounds (TETROMINOS t) \<lparr>pos_x = 4, pos_y = 0\<rparr>"
  by (cases t) (simp_all add: rectangular_def inBounds_def BOARD_WIDTH_def BOARD_HEIGHT_def)

lemma inv_spawnEffect:
  assumes "inv s"
  shows "inv (spawnEffect t s)"
proof (cases "\<not> gameOver s \<and> currentPiece s = None")
  case True
  have "freshlySpawned (s\<lparr>currentPiece := Some (TETROMINOS t), position := \<lparr>pos_x = 4, pos_y = 0\<rparr>\<rparr>)"
    by (cases t) (simp_all add: freshlySpawned_def)
  then show ?thesis
    using True assms template_ok [of t]
    by (simp add: spawnEffect_def inv_def BOARD_WIDTH_def)
next
  case False
  then have "spawnEffect t s = s" by (auto simp: spawnEffect_def)
  then show ?thesis using assms by simp
qed

lemma inv_mergePieceToBoard:
  assumes "inv s" "\<not> gameOver s"
  shows "\<exists>s'. mergePieceToBoard s = Inr s' \<and> inv s'"
proof (cases "currentPiece s")
  case None
  then show ?thesis using assms by (simp add: mergePieceToBoard_def)
next
  case (Some pc)
  have ok: "boardOk (board s)" and ib: "inBounds pc (position s)"
    using assms Some by (simp_all add: inv_def)
  have m: "mergeRows (board s) (color pc) (position s) 0 (shape pc) =
           Inr (mergedBoard (board s) pc (position s))"
    by (rule mergeRows_mergedBoard [OF ok ib])
  obtain b' sc' where cl: "clearLines (mergedBoard (board s) pc (position s)) (score s) = (b', sc')"
    by (cases "clearLines (mergedBoard (board s) pc (position s)) (score s)") auto
  have "boardOk b'"
    using boardOk_clearLines [OF boardOk_mergedBoard, of "board s" pc "position s" "score s"] cl
    by simp
  then show ?thesis
    using Some m cl assms(2) by (simp add: mergePieceToBoard_def inv_def)
qed

lemma inv_moveDown:
  assumes "inv s"
  shows "\<exists>s'. moveDown s = Inr s' \<and> inv s'"
proof (cases "currentPiece s")
  case None
  then show ?thesis using assms by (simp add: moveDown_def)
next
  case (Some pc)
  let ?np = "(position s)\<lparr>pos_y := pos_y (position s) + 1\<rparr>"
  have ok: "boardOk (board s)" using assms by (simp add: inv_def)
  obtain h where h: "isColliding (board s) pc ?np = Inr h"
    using isColliding_total [OF ok] by blast
  show ?thesis
  proof (cases h)
    case False
    have ng: "\<not> gameOver s" using assms Some h False by (auto simp: inv_def)
    have "inBounds pc ?np" using not_colliding_inBounds [OF ok] h False by simp
    then have "inv (s\<lparr>position := ?np\<rparr>)"
      using assms Some h False ng by (simp add: inv_def)
    then show ?thesis using Some h False by (simp add: moveDown_def Let_def)
  next
    case True
    show ?thesis
    proof (cases "pos_y (position s) < 1")
      case low: True
      have "inv (s\<lparr>gameOver := True\<rparr>)"
        using assms Some h True low by (simp add: inv_def freshlySpawned_def)
      then show ?thesis using Some h True low by (simp add: moveDown_def Let_def)
    next
      case high: False
      have ng: "\<not> gameOver s" using assms Some high by (auto simp: inv_def)
      from inv_mergePieceToBoard [OF assms ng] show ?thesis
        using Some h True high by (simp add: moveDown_def Let_def)
    qed
  qed
qed

lemma inv_moveHorizontally:
  assumes "inv s" "\<not> gameOver s"
  shows "\<exists>s'. moveHorizontally dir s = Inr s' \<and> inv s'"
proof (cases "currentPiece s")
  case None
  then show ?thesis using assms by (simp add: moveHorizontally_def)
next
  case (Some pc)
  let ?np = "(position s)\<lparr>pos_x := pos_x (position s) + dir\<rparr>"
  have ok: "boardOk (board s)" using assms by (simp add: inv_def)
  obtain h where h: "isColliding (board s) pc ?np = Inr h"
    using isColliding_total [OF ok] by blast
  show ?thesis
  proof (cases h)
    case False
    have "inBounds pc ?np" using not_colliding_inBounds [OF ok] h False by simp
    then have "inv (s\<lparr>position := ?np\<rparr>)"
      using assms Some h False by (simp add: inv_def)
    then show ?thesis using Some h False by (simp add: moveHorizontally_def Let_def)
  next
    case True
    then show ?thesis using assms Some h by (simp add: moveHorizontally_def Let_def)
  qed
qed

lemma inv_rotatePiece:
  assumes "inv s" "\<not> gameOver s"
  shows "\<exists>s'. rotatePiece s = Inr s' \<and> inv s'"
proof (cases "currentPiece s")
  case None
  then show ?thesis using assms by (simp add: rotatePiece_def)
next
  case (Some pc)
  let ?rp = "pc\<lparr>shape := clockwise (shape pc)\<rparr>"
  have ok: "boardOk (board s)" using assms by (simp add: inv_def)
  have "rectangular (shape pc)" using assms Some by (simp add: inv_def)
  then have r: "rect (length (shape pc)) (length (hd (shape pc))) (shape pc)"
    by (simp add: rectangular_rect)
  have rs: "rotatedShape (shape pc) = Inr (clockwise (shape pc))"
    by (rule rotatedShape_clockwise [OF r])
  have rr: "rectangular (clockwise (shape pc))"
    by (rule rect_rectangular [OF rect_clockwise [OF r]])
  obtain h where h: "isColliding (board s) ?rp (position s) = Inr h"
    using isColliding_total [OF ok] by blast
  show ?thesis
  proof (cases h)
    case False
    have "inBounds ?rp (position s)" using not_colliding_inBounds [OF ok] h False by simp
    then have "inv (s\<lparr>currentPiece := Some ?rp\<rparr>)"
      using assms Some h False rr by (simp add: inv_def)
    then show ?thesis using Some h False rs by (simp add: rotatePiece_def Let_def)
  next
    case True
    then show ?thesis using assms Some h rs by (simp add: rotatePiece_def Let_def)
  qed
qed

lemma inv_handleKeyPress:
  assumes "inv s"
  shows "\<exists>s'. handleKeyPress k s = Inr s' \<and> inv s'"
proof (cases "gameOver s")
  case True
  then show ?thesis using assms by (simp add: handleKeyPress_def)
next
  case False
  then show ?thesis
    using inv_moveHorizontally [OF assms False] inv_moveDown [OF assms]
      inv_rotatePiece [OF assms False] assms
    by (cases k) (simp_all add: handleKeyPress_def)
qed

section \<open>The setter calls and the invariant of the component\<close>

lemma applyUpdates_Nil: "applyUpdates [] s = s"
  by (simp add: applyUpdates_def)

lemma applyUpdates_append: "applyUpdates (us @ vs) s = applyUpdates vs (applyUpdates us s)"
  by (simp add: applyUpdates_def)

lemma mergePieceToBoard_calls_eq:
  "mergePieceToBoard s = map_sum id (\<lambda>us. applyUpdates us s) (mergePieceToBoard_calls s)"
proof (cases "currentPiece s")
  case None
  then show ?thesis
    by (simp add: mergePieceToBoard_def mergePieceToBoard_calls_def applyUpdates_def)
next
  case (Some pc)
  show ?thesis
  proof (cases "mergeRows (board s) (color pc) (position s) 0 (shape pc)")
    case (Inl e)
    then show ?thesis
      using Some by (simp add: mergePieceToBoard_def mergePieceToBoard_calls_def)
  next
    case (Inr nb)
    show ?thesis
    proof (cases "length (completedRows nb) = 0")
      case True
      then have "clearLines nb (score s) = (nb, score s)"
        by (simp add: clearLines_def Let_def)
      then show ?thesis
        using Some Inr True
        by (simp add: mergePieceToBoard_def mergePieceToBoard_calls_def applyUpdates_def)
    next
      case False
      then show ?thesis
        using Some Inr
        by (simp add: mergePieceToBoard_def mergePieceToBoard_calls_def applyUpdates_def
            split: prod.split)
    qed
  qed
qed

lemma moveDown_calls_eq:
  "moveDown s = map_sum id (\<lambda>us. applyUpdates us s) (moveDown_calls s)"
proof (cases "currentPiece s")
  case None
  then show ?thesis by (simp add: moveDown_def moveDown_calls_def applyUpdates_def)
next
  case (Some pc)
  show ?thesis
  proof (cases "isColliding (board s) pc ((position s)\<lparr>pos_y := pos_y (position s) + 1\<rparr>)")
    case (Inl e)
    then show ?thesis using Some by (simp add: moveDown_def moveDown_calls_def Let_def)
  next
    case (Inr hit)
    then show ?thesis
      using Some mergePieceToBoard_calls_eq [of s]
      by (simp add: moveDown_def moveDown_calls_def Let_def applyUpdates_def)
  qed
qed

lemma moveHorizontally_calls_eq:
  "moveHorizontally dir s = map_sum id (\<lambda>us. applyUpdates us s) (moveHorizontally_calls dir s)"
proof (cases "currentPiece s")
  case None
  then show ?thesis
    by (simp add: moveHorizontally_def moveHorizontally_calls_def applyUpdates_def)
next
  case (Some pc)
  show ?thesis
  proof (cases "isColliding (board s) pc ((position s)\<lparr>pos_x := pos_x (position s) + dir\<rparr>)")
    case (Inl e)
    then show ?thesis
      using Some by (simp add: moveHorizontally_def moveHorizontally_calls_def Let_def)
  next
    case (Inr hit)
    then show ?thesis
      using Some
      by (simp add: moveHorizontally_def moveHorizontally_calls_def Let_def applyUpdates_def)
  qed
qed

lemma rotatePiece_calls_eq:
  "rotatePiece s = map_sum id (\<lambda>us. applyUpdates us s) (rotatePiece_calls s)"
proof (cases "currentPiece s")
  case None
  then show ?thesis by (simp add: rotatePiece_def rotatePiece_calls_def applyUpdates_def)
next
  case (Some pc)
  show ?thesis
  proof (cases "rotatedShape (shape pc)")
    case (Inl e)
    then show ?thesis using Some by (simp add: rotatePiece_def rotatePiece_calls_def)
  next
    case (Inr rs)
    show ?thesis
    proof (cases "isColliding (board s) (pc\<lparr>shape := rs\<rparr>) (position s)")
      case (Inl e)
      then show ?thesis
        using Some Inr by (simp add: rotatePiece_def rotatePiece_calls_def Let_def)
    next
      case hit: (Inr hit)
      then show ?thesis
        using Some Inr
        by (simp add: rotatePiece_def rotatePiece_calls_def Let_def applyUpdates_def)
    qed
  qed
qed

lemma handleKeyPress_calls_eq:
  "handleKeyPress k s = map_sum id (\<lambda>us. applyUpdates us s) (handleKeyPress_calls k s)"
  using moveHorizontally_calls_eq [of "- 1" s] moveHorizontally_calls_eq [of 1 s]
    moveDown_calls_eq [of s] rotatePiece_calls_eq [of s]
  by (cases k) (simp_all add: handleKeyPress_def handleKeyPress_calls_def applyUpdates_def)

lemma spawnEffect_calls_eq: "spawnEffect t s = applyUpdates (spawnEffect_calls t s) s"
  by (simp add: spawnEffect_def spawnEffect_calls_def applyUpdates_def)

lemma resetGame_calls_eq: "resetGame s = applyUpdates resetGame_calls s"
  by (simp add: resetGame_def resetGame_calls_def applyUpdates_def)

lemma spawnEffect_calls_settled:
  "currentPiece s \<noteq> None \<or> gameOver s \<Longrightarrow> spawnEffect_calls t s = []"
  by (auto simp: spawnEffect_calls_def)

lemma moveDown_calls_inv:
  assumes "inv s"
  shows "\<exists>us. moveDown_calls s = Inr us \<and> inv (applyUpdates us s)"
  using inv_moveDown [OF assms] moveDown_calls_eq [of s]
  by (cases "moveDown_calls s") auto

lemma handleKeyPress_calls_inv:
  assumes "inv s"
  shows "\<exists>us. handleKeyPress_calls k s = Inr us \<and> inv (applyUpdates us s)"
  using inv_handleKeyPress [OF assms, of k] handleKeyPress_calls_eq [of k s]
  by (cases "handleKeyPress_calls k s") auto

lemma compInv_initialComp: "compInv initialComp"
  by (simp add: compInv_def initialComp_def inv_initialState applyUpdates_Nil current_def)

lemma compInv_act:
  assumes "compInv c" and "isCallback a \<longrightarrow> current c"
  shows "\<exists>c'. act a c = Inr c' \<and> compInv c'"
proof (cases a)
  case Fire
  then have cur: "current c" using assms(2) by simp
  show ?thesis
  proof (cases "gameOver (rendered c)")
    case True
    then have "interval c = None" using assms(1) cur by (simp add: compInv_def)
    then show ?thesis using Fire assms(1) by simp
  next
    case False
    then have i: "interval c = Some (rendered c)" using assms(1) cur by (simp add: compInv_def)
    have "inv (rendered c)" using assms(1) by (simp add: compInv_def)
    from moveDown_calls_inv [OF this] obtain us
      where us: "moveDown_calls (rendered c) = Inr us" "inv (applyUpdates us (rendered c))"
      by blast
    have "compInv (c\<lparr>queued := queued c @ us\<rparr>)"
      using assms(1) cur us(2) by (auto simp: compInv_def current_def)
    then show ?thesis using Fire i us(1) by simp
  qed
next
  case (Press k)
  then have cur: "current c" using assms(2) by simp
  then have l: "listener c = Some (rendered c)" using assms(1) by (simp add: compInv_def)
  have "inv (rendered c)" using assms(1) by (simp add: compInv_def)
  from handleKeyPress_calls_inv [OF this, of k] obtain us
    where us: "handleKeyPress_calls k (rendered c) = Inr us" "inv (applyUpdates us (rendered c))"
    by blast
  have "compInv (c\<lparr>queued := queued c @ us\<rparr>)"
    using assms(1) cur us(2) by (auto simp: compInv_def current_def)
  then show ?thesis using Press l us(1) by simp
next
  case Click
  then have cur: "current c" using assms(2) by simp
  show ?thesis
  proof (cases "gameOver (rendered c)")
    case True
    have "inv (applyUpdates resetGame_calls (rendered c))"
      using inv_resetGame [of "rendered c"] by (simp add: resetGame_calls_eq)
    then have "compInv (c\<lparr>queued := queued c @ resetGame_calls\<rparr>)"
      using assms(1) cur by (auto simp: compInv_def current_def resetGame_calls_def)
    then show ?thesis using Click True by simp
  next
    case False
    then show ?thesis using Click assms(1) by simp
  qed
next
  case Render
  show ?thesis
  proof (cases "queued c = []")
    case True
    then show ?thesis using Render assms(1) by simp
  next
    case False
    have "compInv (c\<lparr>rendered := applyUpdates (queued c) (rendered c), queued := [],
                 effectsDue := True\<rparr>)"
      using assms(1) by (simp add: compInv_def current_def applyUpdates_Nil)
    then show ?thesis using Render False by simp
  qed
next
  case (Effects t)
  show ?thesis
  proof (cases "effectsDue c")
    case False
    then show ?thesis using Effects assms(1) by simp
  next
    case True
    then have q: "queued c = []" using assms(1) by (simp add: compInv_def)
    have i: "inv (rendered c)" using assms(1) by (simp add: compInv_def)
    have "inv (applyUpdates (spawnEffect_calls t (rendered c)) (rendered c))"
      using inv_spawnEffect [OF i, of t] by (simp add: spawnEffect_calls_eq)
    then have "compInv (c\<lparr>listener := Some (rendered c),
               interval := (if gameOver (rendered c) then None else Some (rendered c)),
               queued := queued c @ spawnEffect_calls t (rendered c),
               effectsDue := False\<rparr>)"
      using i q by (simp add: compInv_def current_def)
    then show ?thesis using Effects True by simp
  qed
qed

lemma compInv_run:
  assumes "compInv c" and "fresh as c"
  shows "\<exists>c'. run as c = Inr c' \<and> compInv c'"
  using assms
proof (induction as arbitrary: c)
  case Nil
  then show ?case by simp
next
  case (Cons a as)
  from Cons.prems(2) have cb: "isCallback a \<longrightarrow> current c" by simp
  from compInv_act [OF Cons.prems(1) cb] obtain c1 where c1: "act a c = Inr c1" "compInv c1"
    by blast
  from Cons.prems(2) c1(1) have "fresh as c1" by simp
  from Cons.IH [OF c1(2) this] c1(1) show ?case by simp
qed

text \<open>
  In a fresh run from the start of the component no callback raises, and every rendered
  state is well formed: the hypotheses \<open>boardOk\<close>, \<open>inBounds\<close> and \<open>rectangular\<close> of
  the theorems below hold of it.
\<close>

lemma fresh_wellformed:
  assumes "fresh as initialComp" and "run as initialComp = Inr c"
    and "currentPiece (rendered c) = Some pc"
  shows "boardOk (board (rendered c)) \<and> inBounds pc (position (rendered c)) \<and>
         rectangular (shape pc)"
  using compInv_run [OF compInv_initialComp assms(1)] assms(2,3)
  by (auto simp: compInv_def inv_def)

text \<open>
The example states of the witnesses below are states a fresh run reaches.
\<close>

lemma blockedState_reachable:
  "fresh blockedActs initialComp \<and> run blockedActs initialComp = Inr (atRest blockedState)"
  by code_simp

lemma lockExample_reachable:
  "fresh lockActs initialComp \<and> run lockActs initialComp = Inr (atRest lockExample)"
  by code_simp

lemma wallState_reachable:
  "fresh wallActs initialComp \<and> run wallActs initialComp = Inr (atRest wallState)"
  by code_simp

section \<open>C1: the collision query\<close>

text \<open>
  C1. On the 10 x 20 board, \<open>isColliding\<close> returns true if and only if some occupied
  mask cell, at its absolute coordinates \<open>(pos.x + x, pos.y + y)\<close>, has \<open>x < 0\<close>,
  \<open>x \<ge> 10\<close>, \<open>y \<ge> 20\<close>, or \<open>y \<ge> 0\<close> with the grid cell there filled. It never
  raises. A piece whose occupied cells all lie above the top (\<open>y < 0\<close>) is tested
  against the horizontal bounds only, whatever the grid holds.
\<close>

theorem isColliding_spec:
  assumes "boardOk b"
  shows "isColliding b pc p =
           Inr (\<exists>yi xi. occupied (shape pc) yi xi \<and>
                  (pos_x p + int xi < 0 \<or> pos_x p + int xi \<ge> BOARD_WIDTH \<or>
                   pos_y p + int yi \<ge> BOARD_HEIGHT \<or>
                   (pos_y p + int yi \<ge> 0 \<and>
                    truthy (b ! nat (pos_y p + int yi) ! nat (pos_x p + int xi)))))
         \<and> ((\<forall>yi xi. occupied (shape pc) yi xi \<longrightarrow> pos_y p + int yi < 0) \<longrightarrow>
            isColliding b pc p =
              Inr (\<exists>yi xi. occupied (shape pc) yi xi \<and>
                     (pos_x p + int xi < 0 \<or> pos_x p + int xi \<ge> BOARD_WIDTH)))"
proof (intro conjI impI)
  show full: "isColliding b pc p =
           Inr (\<exists>yi xi. occupied (shape pc) yi xi \<and>
                  (pos_x p + int xi < 0 \<or> pos_x p + int xi \<ge> BOARD_WIDTH \<or>
                   pos_y p + int yi \<ge> BOARD_HEIGHT \<or>
                   (pos_y p + int yi \<ge> 0 \<and>
                    truthy (b ! nat (pos_y p + int yi) ! nat (pos_x p + int xi)))))"
    using isColliding_iff [OF assms, of pc p] by (simp add: cellHit_def)
  assume above: "\<forall>yi xi. occupied (shape pc) yi xi \<longrightarrow> pos_y p + int yi < 0"
  have "(\<exists>yi xi. occupied (shape pc) yi xi \<and> cellHit b p yi xi) =
        (\<exists>yi xi. occupied (shape pc) yi xi \<and>
            (pos_x p + int xi < 0 \<or> pos_x p + int xi \<ge> BOARD_WIDTH))"
    using above by (auto simp: cellHit_def BOARD_HEIGHT_def)
  then show "isColliding b pc p =
              Inr (\<exists>yi xi. occupied (shape pc) yi xi \<and>
                     (pos_x p + int xi < 0 \<or> pos_x p + int xi \<ge> BOARD_WIDTH))"
    using isColliding_iff [OF assms, of pc p] by simp
qed

theorem isColliding_spec_witness:
  "boardOk createBoard \<and>
   isColliding createBoard (TETROMINOS TetI) \<lparr>pos_x = 8, pos_y = - 1\<rparr> = Inr True \<and>
   isColliding createBoard (TETROMINOS TetI) \<lparr>pos_x = 4, pos_y = - 1\<rparr> = Inr False"
proof -
  let ?pc = "TETROMINOS TetI"
  let ?p = "\<lparr>pos_x = 8, pos_y = - 1\<rparr>" and ?q = "\<lparr>pos_x = 4, pos_y = - 1\<rparr>"
  have ok: "boardOk createBoard"
    by (simp add: boardOk_def createBoard_def BOARD_HEIGHT_def BOARD_WIDTH_def list_all_length)
  have above: "\<forall>yi xi. occupied (shape ?pc) yi xi \<longrightarrow> pos_y ?p + int yi < 0"
    by (simp add: occupied_def)
  have "occupied (shape ?pc) 0 3 \<and> pos_x ?p + int 3 \<ge> BOARD_WIDTH"
    by (simp add: occupied_def BOARD_WIDTH_def)
  then have out: "\<exists>yi xi. occupied (shape ?pc) yi xi \<and>
      (pos_x ?p + int xi < 0 \<or> pos_x ?p + int xi \<ge> BOARD_WIDTH)"
    by blast
  have hit: "isColliding createBoard ?pc ?p = Inr True"
    using isColliding_spec [OF ok, of ?pc ?p, THEN conjunct2, THEN mp, OF above] out
    by (simp only: simp_thms)
  have "\<And>yi xi. occupied (shape ?pc) yi xi \<Longrightarrow> yi = 0 \<and> xi < 4"
    by (auto simp: occupied_def)
  then have "\<not> (\<exists>yi xi. occupied (shape ?pc) yi xi \<and>
      (pos_x ?q + int xi < 0 \<or> pos_x ?q + int xi \<ge> BOARD_WIDTH \<or>
       pos_y ?q + int yi \<ge> BOARD_HEIGHT \<or>
       (pos_y ?q + int yi \<ge> 0 \<and>
        truthy (createBoard ! nat (pos_y ?q + int yi) ! nat (pos_x ?q + int xi)))))"
    by (fastforce simp: BOARD_WIDTH_def BOARD_HEIGHT_def)
  then have free: "isColliding createBoard ?pc ?q = Inr False"
    using isColliding_spec [OF ok, of ?pc ?q, THEN conjunct1] by (simp only: simp_thms)
  from ok hit free show ?thesis by blast
qed

section \<open>C2: locking\<close>

text \<open>
  C2. In a state with an active piece (on the 10 x 20 board, the piece within the
  bounds, as in every state of a fresh run), when moving down by 1 collides and the current
  \<open>y \<ge> 1\<close>, the tick merges the piece into the grid at its current position (every
  cell under an occupied mask cell is set to the colour of the piece, the others are
  kept), removes every completed row and prepends as many empty rows, adds 100 times
  the number of completed rows to the score, and clears the active piece.
\<close>

theorem moveDown_lock:
  assumes "currentPiece s = Some pc"
    and "boardOk (board s)" and "inBounds pc (position s)"
    and "isColliding (board s) pc ((position s)\<lparr>pos_y := pos_y (position s) + 1\<rparr>) = Inr True"
    and "pos_y (position s) \<ge> 1"
  shows "moveDown s =
     Inr (s\<lparr>board :=
             replicate (length (filter rowComplete (mergedBoard (board s) pc (position s)))) emptyRow @
             filter (\<lambda>row. \<not> rowComplete row) (mergedBoard (board s) pc (position s)),
           currentPiece := None,
           score := score s +
             100 * int (length (filter rowComplete (mergedBoard (board s) pc (position s))))\<rparr>)"
proof -
  have m: "mergeRows (board s) (color pc) (position s) 0 (shape pc) =
           Inr (mergedBoard (board s) pc (position s))"
    by (rule mergeRows_mergedBoard [OF assms(2) assms(3)])
  have "mergePieceToBoard s =
     Inr (s\<lparr>board :=
             replicate (length (filter rowComplete (mergedBoard (board s) pc (position s)))) emptyRow @
             filter (\<lambda>row. \<not> rowComplete row) (mergedBoard (board s) pc (position s)),
           currentPiece := None,
           score := score s +
             100 * int (length (filter rowComplete (mergedBoard (board s) pc (position s))))\<rparr>)"
    by (simp add: mergePieceToBoard_def assms(1) m clearLines_eq)
  then show ?thesis
    using assms(1,4,5) by (simp add: moveDown_def Let_def)
qed

theorem moveDown_lock_witness:
  "currentPiece lockExample = Some (TETROMINOS TetO) \<and>
   boardOk (board lockExample) \<and>
   inBounds (TETROMINOS TetO) (position lockExample) \<and>
   isColliding (board lockExample) (TETROMINOS TetO)
     ((position lockExample)\<lparr>pos_y := pos_y (position lockExample) + 1\<rparr>) = Inr True \<and>
   pos_y (position lockExample) \<ge> 1 \<and>
   moveDown lockExample =
     Inr \<lparr>board = replicate 19 emptyRow @ [emptyRow[4 := yellow, 5 := yellow]],
          currentPiece = None, position = \<lparr>pos_x = 4, pos_y = 18\<rparr>,
          gameOver = False, score = 100\<rparr>"
proof -
  have h1: "currentPiece lockExample = Some (TETROMINOS TetO)" by code_simp
  have h2: "boardOk (board lockExample)" by code_simp
  have h3: "inBounds (TETROMINOS TetO) (position lockExample)" by code_simp
  have h4: "isColliding (board lockExample) (TETROMINOS TetO)
     ((position lockExample)\<lparr>pos_y := pos_y (position lockExample) + 1\<rparr>) = Inr True"
    by code_simp
  have h5: "pos_y (position lockExample) \<ge> 1" by code_simp
  have r: "lockExample\<lparr>board :=
             replicate (length (filter rowComplete
                (mergedBoard (board lockExample) (TETROMINOS TetO) (position lockExample)))) emptyRow @
             filter (\<lambda>row. \<not> rowComplete row)
                (mergedBoard (board lockExample) (TETROMINOS TetO) (position lockExample)),
           currentPiece := None,
           score := score lockExample +
             100 * int (length (filter rowComplete
                (mergedBoard (board lockExample) (TETROMINOS TetO) (position lockExample))))\<rparr> =
        \<lparr>board = replicate 19 emptyRow @ [emptyRow[4 := yellow, 5 := yellow]],
          currentPiece = None, position = \<lparr>pos_x = 4, pos_y = 18\<rparr>,
          gameOver = False, score = 100\<rparr>"
    by code_simp
  have "moveDown lockExample =
     Inr \<lparr>board = replicate 19 emptyRow @ [emptyRow[4 := yellow, 5 := yellow]],
          currentPiece = None, position = \<lparr>pos_x = 4, pos_y = 18\<rparr>,
          gameOver = False, score = 100\<rparr>"
    using moveDown_lock [OF h1 h2 h3 h4 h5] by (simp only: r)
  with h1 h2 h3 h4 h5 show ?thesis by blast
qed

section \<open>C3: the line clear\<close>

text \<open>
  C3. For a grid with exactly \<open>k\<close> completed rows, wherever they are, the line clear
  returns the \<open>k\<close> empty rows followed by the rows that are not complete, in their
  original order, which is again a 10 x 20 grid, and the score plus \<open>100 * k\<close>.
\<close>

theorem clearLines_spec:
  assumes "boardOk nb" and "length (filter rowComplete nb) = k"
  shows "clearLines nb sc =
           (replicate k emptyRow @ filter (\<lambda>row. \<not> rowComplete row) nb, sc + 100 * int k) \<and>
         boardOk (replicate k emptyRow @ filter (\<lambda>row. \<not> rowComplete row) nb)"
  using assms boardOk_clearLines [OF assms(1), of sc] by (simp add: clearLines_eq)

theorem clearLines_spec_witness:
  "boardOk clearExample \<and> length (filter rowComplete clearExample) = 2 \<and>
   clearLines clearExample 300 = (replicate 19 emptyRow @ [emptyRow[0 := yellow]], 500)"
proof -
  have h1: "boardOk clearExample" by code_simp
  have h2: "length (filter rowComplete clearExample) = 2" by code_simp
  have r: "(replicate 2 emptyRow @ filter (\<lambda>row. \<not> rowComplete row) clearExample, 300 + 100 * int 2) =
           (replicate 19 emptyRow @ [emptyRow[0 := yellow]], 500 :: int)"
    by code_simp
  have "clearLines clearExample 300 = (replicate 19 emptyRow @ [emptyRow[0 := yellow]], 500)"
    using clearLines_spec [OF h1 h2, of 300] by (simp only: r)
  with h1 h2 show ?thesis by blast
qed

section \<open>C4: game over\<close>

text \<open>
  C4. In a state with an active piece, when moving down by 1 collides and the current
  \<open>y < 1\<close>, the tick only sets the Game-Over flag: the grid, the score, the piece and
  the position stay as they are, and nothing is merged.
\<close>

theorem moveDown_gameOver:
  assumes "currentPiece s = Some pc"
    and "isColliding (board s) pc ((position s)\<lparr>pos_y := pos_y (position s) + 1\<rparr>) = Inr True"
    and "pos_y (position s) < 1"
  shows "moveDown s = Inr (s\<lparr>gameOver := True\<rparr>)"
  using assms by (simp add: moveDown_def Let_def)

theorem moveDown_gameOver_witness:
  "currentPiece blockedState = Some uprightI \<and>
   isColliding (board blockedState) uprightI
     ((position blockedState)\<lparr>pos_y := pos_y (position blockedState) + 1\<rparr>) = Inr True \<and>
   pos_y (position blockedState) < 1 \<and>
   moveDown blockedState = Inr gameOverState"
proof -
  have h1: "currentPiece blockedState = Some uprightI" by code_simp
  have h2: "isColliding (board blockedState) uprightI
     ((position blockedState)\<lparr>pos_y := pos_y (position blockedState) + 1\<rparr>) = Inr True"
    by code_simp
  have h3: "pos_y (position blockedState) < 1" by code_simp
  have r: "blockedState\<lparr>gameOver := True\<rparr> = gameOverState" by code_simp
  have "moveDown blockedState = Inr gameOverState"
    using moveDown_gameOver [OF h1 h2 h3] by (simp only: r)
  with h1 h2 h3 show ?thesis by blast
qed

section \<open>C5: the active piece and the grid\<close>

text \<open>
  C5, as amended. In every state rendered in a fresh run (the interval fires and keys
  are pressed only when the previous calls have been rendered and the effects have
  re-bound the callbacks), with an active piece: no occupied mask cell lies outside the
  horizontal bounds, and no occupied mask cell of a row \<open>y \<ge> 0\<close> lies on a filled grid
  cell unless the piece is freshly spawned: a template still at the spawn position
  (4, 0), where the spawn put it without a collision test.
\<close>

theorem active_piece_invariant:
  assumes "fresh as initialComp" and "run as initialComp = Inr c"
    and "currentPiece (rendered c) = Some pc"
  shows "(\<forall>yi xi. occupied (shape pc) yi xi \<longrightarrow>
            0 \<le> pos_x (position (rendered c)) + int xi \<and>
            pos_x (position (rendered c)) + int xi < BOARD_WIDTH) \<and>
         ((\<forall>yi xi. occupied (shape pc) yi xi \<and> pos_y (position (rendered c)) + int yi \<ge> 0 \<longrightarrow>
             \<not> truthy (board (rendered c) ! nat (pos_y (position (rendered c)) + int yi) !
                           nat (pos_x (position (rendered c)) + int xi))) \<or>
          freshlySpawned (rendered c))"
proof -
  let ?s = "rendered c"
  from compInv_run [OF compInv_initialComp assms(1)] assms(2) have i: "inv ?s"
    by (auto simp: compInv_def)
  have ok: "boardOk (board ?s)" and ib: "inBounds pc (position ?s)"
    and d: "isColliding (board ?s) pc (position ?s) = Inr False \<or> freshlySpawned ?s"
    using i assms(3) by (simp_all add: inv_def)
  have a: "\<forall>yi xi. occupied (shape pc) yi xi \<longrightarrow>
            0 \<le> pos_x (position ?s) + int xi \<and> pos_x (position ?s) + int xi < BOARD_WIDTH"
    using ib by (simp add: inBounds_iff BOARD_WIDTH_def)
  have b: "(\<forall>yi xi. occupied (shape pc) yi xi \<and> pos_y (position ?s) + int yi \<ge> 0 \<longrightarrow>
             \<not> truthy (board ?s ! nat (pos_y (position ?s) + int yi) !
                           nat (pos_x (position ?s) + int xi)))"
    if "isColliding (board ?s) pc (position ?s) = Inr False"
    using that unfolding isColliding_iff [OF ok] by (auto simp: cellHit_def)
  from a b d show ?thesis by blast
qed

theorem active_piece_invariant_witness:
  "fresh turnActs initialComp \<and> run turnActs initialComp = Inr (atRest turnState) \<and>
   currentPiece (rendered (atRest turnState)) =
     Some \<lparr>shape = [[Num 1, Num 0], [Num 1, Num 1], [Num 1, Num 0]], color = ''#a000f0''\<rparr> \<and>
   \<not> freshlySpawned (rendered (atRest turnState)) \<and>
   occupied [[Num 1, Num 0], [Num 1, Num 1], [Num 1, Num 0]] 1 1 \<and>
   pos_x (position (rendered (atRest turnState))) + int 1 < BOARD_WIDTH \<and>
   \<not> truthy (board (rendered (atRest turnState)) !
                 nat (pos_y (position (rendered (atRest turnState))) + int 1) !
                 nat (pos_x (position (rendered (atRest turnState))) + int 1))"
proof -
  let ?pc = "\<lparr>shape = [[Num 1, Num 0], [Num 1, Num 1], [Num 1, Num 0]], color = ''#a000f0''\<rparr>"
  let ?c = "atRest turnState"
  have h0: "fresh turnActs initialComp" by code_simp
  have h1: "run turnActs initialComp = Inr ?c" by code_simp
  have h2: "currentPiece (rendered ?c) = Some ?pc" by code_simp
  have nf: "\<not> freshlySpawned (rendered ?c)" by code_simp
  have oc: "occupied (shape ?pc) 1 1" by (simp add: occupied_def)
  have y: "pos_y (position (rendered ?c)) + int 1 \<ge> 0" by code_simp
  from active_piece_invariant [OF h0 h1 h2] nf oc y
  have "pos_x (position (rendered ?c)) + int 1 < BOARD_WIDTH \<and>
        \<not> truthy (board (rendered ?c) ! nat (pos_y (position (rendered ?c)) + int 1) !
                 nat (pos_x (position (rendered ?c)) + int 1))"
    by blast
  with h0 h1 h2 nf oc show ?thesis by simp
qed

text \<open>
  C5 as stated fails in a fresh run: after four upright I pieces and three flat ones,
  row 1 is filled in columns 4 to 7, and the O piece spawned next lies on the filled
  cell (4, 1).
\<close>

theorem spawn_overlap_counterexample:
  "fresh overlapActs initialComp \<and>
   run overlapActs initialComp = Inr (atRest overlapState) \<and>
   currentPiece overlapState = Some (TETROMINOS TetO) \<and>
   position overlapState = \<lparr>pos_x = 4, pos_y = 0\<rparr> \<and>
   occupied (shape (TETROMINOS TetO)) 1 0 \<and>
   truthy (board overlapState ! nat (0 + int 1) ! nat (4 + int 0))"
  by code_simp

text \<open>
  The amended claim is about fresh runs only. When the up key is pressed between the
  tick that locks an upright I piece in rows 16 to 19 and the render, \<open>rotatePiece\<close>
  still sees the piece on the empty board: the render sets the merged board and the
  turned piece, which lies on the filled cell (4, 16).
\<close>

lemma stale_rotate_after_lock:
  "\<not> fresh staleActs initialComp \<and>
   map_sum id rendered (run staleActs initialComp) = Inr staleState \<and>
   \<not> freshlySpawned staleState \<and>
   occupied (shape (TETROMINOS TetI)) 0 0 \<and>
   truthy (board staleState ! nat (16 + int 0) ! nat (4 + int 0))"
  by code_simp

section \<open>C6: Game-Over blocks the engine\<close>





section \<open>C7: rotation\<close>

text \<open>
  C7. In a state with an active piece (rectangular mask, 10 x 20 board), \<open>rotatePiece\<close>
  raises no error; it replaces the mask by its clockwise quarter turn (the transpose
  with every row reversed, of swapped dimensions: cell \<open>(i, j)\<close> of the new mask is
  cell \<open>(n - 1 - j, i)\<close> of the old one) exactly when the turned mask does not collide
  at the unchanged position, and otherwise leaves the state as it is. The position is
  never changed: no other offset is tried.
\<close>

theorem rotatePiece_spec:
  assumes "currentPiece s = Some pc" and "boardOk (board s)" and "rectangular (shape pc)"
  shows "rotatePiece s =
           Inr (if isColliding (board s) (pc\<lparr>shape := clockwise (shape pc)\<rparr>) (position s) = Inr False
                then s\<lparr>currentPiece := Some (pc\<lparr>shape := clockwise (shape pc)\<rparr>)\<rparr>
                else s) \<and>
         length (clockwise (shape pc)) = length (hd (shape pc)) \<and>
         (\<forall>i < length (hd (shape pc)). length (clockwise (shape pc) ! i) = length (shape pc) \<and>
            (\<forall>j < length (shape pc).
               clockwise (shape pc) ! i ! j = shape pc ! (length (shape pc) - 1 - j) ! i))"
proof -
  have r: "rect (length (shape pc)) (length (hd (shape pc))) (shape pc)"
    using assms(3) by (simp add: rectangular_rect)
  have rs: "rotatedShape (shape pc) = Inr (clockwise (shape pc))"
    by (rule rotatedShape_clockwise [OF r])
  obtain h where h: "isColliding (board s) (pc\<lparr>shape := clockwise (shape pc)\<rparr>) (position s) = Inr h"
    using isColliding_total [OF assms(2)] by blast
  have one: "rotatePiece s =
           Inr (if isColliding (board s) (pc\<lparr>shape := clockwise (shape pc)\<rparr>) (position s) = Inr False
                then s\<lparr>currentPiece := Some (pc\<lparr>shape := clockwise (shape pc)\<rparr>)\<rparr>
                else s)"
    using assms(1) rs h by (simp add: rotatePiece_def Let_def)
  have two: "length (clockwise (shape pc)) = length (hd (shape pc))"
    using rect_clockwise [OF r] by (simp add: rect_def)
  have three: "\<forall>i < length (hd (shape pc)). length (clockwise (shape pc) ! i) = length (shape pc) \<and>
            (\<forall>j < length (shape pc).
               clockwise (shape pc) ! i ! j = shape pc ! (length (shape pc) - 1 - j) ! i)"
    using rect_clockwise [OF r] clockwise_nth [OF r] by (simp add: rect_def)
  from one two three show ?thesis by blast
qed

theorem rotatePiece_spec_witness:
  "currentPiece wallState = Some uprightI \<and> boardOk (board wallState) \<and>
   rectangular (shape uprightI) \<and>
   clockwise (shape uprightI) = [[Num 1, Num 1, Num 1, Num 1]] \<and>
   rotatePiece wallState = Inr wallState \<and>
   rotatePiece (wallState\<lparr>position := \<lparr>pos_x = 6, pos_y = 5\<rparr>\<rparr>) =
     Inr (wallState\<lparr>position := \<lparr>pos_x = 6, pos_y = 5\<rparr>,
                    currentPiece := Some (uprightI\<lparr>shape := [[Num 1, Num 1, Num 1, Num 1]]\<rparr>)\<rparr>)"
proof -
  let ?free = "wallState\<lparr>position := \<lparr>pos_x = 6, pos_y = 5\<rparr>\<rparr>"
  have h1: "currentPiece wallState = Some uprightI" by code_simp
  have h2: "boardOk (board wallState)" by code_simp
  have h3: "rectangular (shape uprightI)" by code_simp
  have g1: "currentPiece ?free = Some uprightI" by code_simp
  have g2: "boardOk (board ?free)" by code_simp
  have c: "clockwise (shape uprightI) = [[Num 1, Num 1, Num 1, Num 1]]" by code_simp
  have hit: "isColliding (board wallState) (uprightI\<lparr>shape := [[Num 1, Num 1, Num 1, Num 1]]\<rparr>)
               (position wallState) = Inr True" by code_simp
  have nohit: "isColliding (board ?free) (uprightI\<lparr>shape := [[Num 1, Num 1, Num 1, Num 1]]\<rparr>)
               (position ?free) = Inr False" by code_simp
  have a: "rotatePiece wallState = Inr wallState"
    using rotatePiece_spec [OF h1 h2 h3] by (simp add: c hit)
  have b: "rotatePiece ?free =
     Inr (?free\<lparr>currentPiece := Some (uprightI\<lparr>shape := [[Num 1, Num 1, Num 1, Num 1]]\<rparr>)\<rparr>)"
    using rotatePiece_spec [OF g1 g2 h3, THEN conjunct1] unfolding c nohit by simp
  from h1 h2 h3 c a b show ?thesis by simp
qed

section \<open>C8: spawning\<close>

text \<open>
  C8, as amended. When no active piece exists and the Game-Over flag is false, the
  spawn effect creates one active piece, the template drawn, at \<open>x = 4\<close>
  (\<open>floor(10 / 2) - 1\<close>) and \<open>y = 0\<close>, whatever the shape: this leaves 4 free columns
  on the left and, on the right, 4 for O, 3 for J, L, S, T and Z, and 2 for I.
\<close>

theorem spawnEffect_spec:
  assumes "currentPiece s = None" and "\<not> gameOver s"
  shows "spawnEffect t s =
           s\<lparr>currentPiece := Some (TETROMINOS t), position := \<lparr>pos_x = 4, pos_y = 0\<rparr>\<rparr> \<and>
         leftGap (TETROMINOS t) (position (spawnEffect t s)) = 4 \<and>
         rightGap (TETROMINOS t) (position (spawnEffect t s)) =
           (case t of TetI \<Rightarrow> 2 | TetO \<Rightarrow> 4 | _ \<Rightarrow> 3)"
  using assms
  by (cases t) (simp_all add: spawnEffect_def leftGap_def rightGap_def BOARD_WIDTH_def)

theorem spawnEffect_spec_witness:
  "currentPiece initialState = None \<and> \<not> gameOver initialState \<and>
   spawnEffect TetO initialState =
     initialState\<lparr>currentPiece := Some (TETROMINOS TetO), position := \<lparr>pos_x = 4, pos_y = 0\<rparr>\<rparr> \<and>
   leftGap (TETROMINOS TetO) (position (spawnEffect TetO initialState)) = 4 \<and>
   rightGap (TETROMINOS TetO) (position (spawnEffect TetO initialState)) = 4"
proof -
  have h1: "currentPiece initialState = None" by (simp add: initialState_def)
  have h2: "\<not> gameOver initialState" by (simp add: initialState_def)
  have e: "(case TetO of TetI \<Rightarrow> 2 | TetO \<Rightarrow> 4 | _ \<Rightarrow> (3::int)) = 4" by simp
  from spawnEffect_spec [OF h1 h2, of TetO] h1 h2 show ?thesis unfolding e by blast
qed

text \<open>
  C8 as stated fails for the I piece: spawned at \<open>x = 4\<close> it covers columns 4 to 7,
  with 4 free columns on its left and 2 on its right, one column right of the centre.
\<close>

theorem spawn_I_off_centre_counterexample:
  "currentPiece initialState = None \<and> \<not> gameOver initialState \<and>
   position (spawnEffect TetI initialState) = \<lparr>pos_x = 4, pos_y = 0\<rparr> \<and>
   leftGap (TETROMINOS TetI) (position (spawnEffect TetI initialState)) = 4 \<and>
   rightGap (TETROMINOS TetI) (position (spawnEffect TetI initialState)) = 2 \<and>
   \<not> centred (TETROMINOS TetI) (position (spawnEffect TetI initialState))"
  by (simp add: initialState_def spawnEffect_def leftGap_def rightGap_def centred_def BOARD_WIDTH_def)

section \<open>C9: dropping an O piece on the empty board\<close>

text \<open>
  C9, as amended. From the empty board, with an O piece spawned at \<open>x = 4\<close>,
  \<open>y = 0\<close>, 18 ticks (each rendered before the next) bring the piece to \<open>y = 18\<close>
  (rows 18 and 19) and do not merge it; the 19th tick merges it: in the render that
  follows no piece is active, the score is 0, and the board holds exactly the 2 x 2
  block in rows 18 and 19, columns 4 and 5.
\<close>

theorem drop_O_nineteen_ticks:
  "run (mount TetO @ concat (replicate 18 (handled TetO Fire))) initialComp =
     Inr (atRest \<lparr>board = createBoard, currentPiece = Some (TETROMINOS TetO),
                  position = \<lparr>pos_x = 4, pos_y = 18\<rparr>, gameOver = False, score = 0\<rparr>) \<and>
   map_sum id rendered
     (run (mount TetO @ concat (replicate 18 (handled TetO Fire)) @ [Fire, Render]) initialComp) =
     Inr \<lparr>board = replicate 18 emptyRow @ replicate 2 (emptyRow[4 := yellow, 5 := yellow]),
          currentPiece = None,
          position = \<lparr>pos_x = 4, pos_y = 18\<rparr>, gameOver = False, score = 0\<rparr>"
  by code_simp

text \<open>
  C9 as stated fails: after 18 ticks the piece is still active and the board is still
  empty; cell (4, 18) holds \<open>0\<close>.
\<close>

theorem drop_O_eighteen_ticks_counterexample:
  "run (mount TetO @ concat (replicate 18 (handled TetO Fire))) initialComp =
     Inr (atRest \<lparr>board = createBoard, currentPiece = Some (TETROMINOS TetO),
                  position = \<lparr>pos_x = 4, pos_y = 18\<rparr>, gameOver = False, score = 0\<rparr>) \<and>
   createBoard ! 18 ! 4 = Num 0"
  by code_simp


section \<open>C10: four rotations\<close>

text \<open>
  C10. For every rectangular mask (at least one row and one column), applying the
  rotation transform of \<open>rotatePiece\<close> four times in succession raises no error and
  gives the mask back unchanged.
\<close>

theorem rotate_four_times:
  assumes "rectangular sh"
  shows "rotateTimes 4 sh = Inr sh"
proof -
  define n m where "n = length sh" and "m = length (hd sh)"
  have r: "rect n m sh" using assms by (simp add: rectangular_rect n_def m_def)
  have ra: "rect m n (clockwise sh)" by (rule rect_clockwise [OF r])
  have rb: "rect n m (clockwise (clockwise sh))" by (rule rect_clockwise [OF ra])
  have rc: "rect m n (clockwise (clockwise (clockwise sh)))" by (rule rect_clockwise [OF rb])
  have "rotateTimes 4 sh = Inr (clockwise (clockwise (clockwise (clockwise sh))))"
    by (simp add: numeral_eq_Suc rotatedShape_clockwise [OF r] rotatedShape_clockwise [OF ra]
        rotatedShape_clockwise [OF rb] rotatedShape_clockwise [OF rc])
  then show ?thesis by (simp add: clockwise4 [OF r])
qed

theorem rotate_four_times_witness:
  "rectangular (shape (TETROMINOS TetJ)) \<and>
   rotateTimes 1 (shape (TETROMINOS TetJ)) = Inr [[Num 1, Num 1], [Num 1, Num 0], [Num 1, Num 0]] \<and>
   rotateTimes 4 (shape (TETROMINOS TetJ)) = Inr (shape (TETROMINOS TetJ))"
proof -
  have h: "rectangular (shape (TETROMINOS TetJ))" by code_simp
  have one: "rotateTimes 1 (shape (TETROMINOS TetJ)) =
     Inr [[Num 1, Num 1], [Num 1, Num 0], [Num 1, Num 0]]" by code_simp
  from rotate_four_times [OF h] h one show ?thesis by simp
qed

end
